theory Spec2Isabelle
  imports Complex_Main "HOL-Library.Sublist" "HOL-Library.Char_ord" "HOL-Library.List_Lexorder"
    "HOL-Library.Log_Nat"
begin

section \<open>Data model\<close>

text \<open>
  Modelled from the spec: the type declarations of \<^verbatim>\<open>../types\<close> (LogLine,
  EventNotification, TaskInfo, NodeInfo) are not part of the sources, so the records
  below type the fields as section 3 of the specification does: \<^verbatim>\<open>task_id\<close>,
  \<^verbatim>\<open>node_id\<close>, \<^verbatim>\<open>reco_id\<close> and \<^verbatim>\<open>action_id\<close> are integers, \<^verbatim>\<open>uuid\<close>, \<^verbatim>\<open>entry\<close>,
  \<^verbatim>\<open>hash\<close>, \<^verbatim>\<open>name\<close> and timestamps are strings. A property that may be missing from
  a JavaScript object is an \<open>option\<close>; \<open>None\<close> is \<^verbatim>\<open>undefined\<close>.

  A detail blob is an opaque object handed through verbatim; the code reads only its
  properties \<^verbatim>\<open>reco_id\<close>, \<^verbatim>\<open>action_id\<close> and \<^verbatim>\<open>name\<close>.
\<close>

record blob =
  b_reco_id :: "int option"
  b_action_id :: "int option"
  b_name :: "string option"
  b_payload :: string

record list_item =
  i_name :: "string option"
  i_anchor :: "bool option"
  i_jump_back :: "bool option"

record details =
  d_task_id :: "int option"
  d_uuid :: "string option"
  d_entry :: "string option"
  d_hash :: "string option"
  d_node_id :: "int option"
  d_name :: "string option"
  d_reco_id :: "int option"
  d_action_id :: "int option"
  d_list :: "list_item list option"
  d_reco_details :: "blob option"
  d_action_details :: "blob option"
  d_node_details :: "blob option"
  d_focus :: "string option"

record event =
  e_timestamp :: string
  e_level :: string
  e_message :: string
  e_details :: details
  e_lineNumber :: nat

datatype task_status = Running | Succeeded | TaskFailed

datatype node_status = Success | Failed

text \<open>The record pushed to \<^verbatim>\<open>recognitionsByTaskId\<close> / \<^verbatim>\<open>actionsByTaskId\<close> for an
  event of a sub-task (\<open>s_id\<close> is its \<^verbatim>\<open>reco_id\<close> or \<^verbatim>\<open>action_id\<close>).\<close>

record sub_attempt =
  s_id :: "int option"
  s_name :: string
  s_timestamp :: string
  s_status :: node_status
  s_details :: "blob option"

text \<open>A completed nested RecognitionNode / ActionNode (\<open>nn_nested\<close> is its
  \<^verbatim>\<open>nested_nodes\<close> or \<^verbatim>\<open>nested_actions\<close>).\<close>

record nested_node =
  nn_id :: "int option"
  nn_name :: string
  nn_timestamp :: string
  nn_status :: node_status
  nn_details :: "blob option"
  nn_nested :: "sub_attempt list option"

record attempt =
  a_reco_id :: "int option"
  a_name :: string
  a_timestamp :: string
  a_status :: node_status
  a_reco_details :: "blob option"
  a_nested_nodes :: "nested_node list option"

record next_item =
  nx_name :: string
  nx_anchor :: bool
  nx_jump_back :: bool

record node =
  node_id :: int
  n_name :: string
  n_timestamp :: string
  n_status :: node_status
  n_task_id :: int
  n_reco_details :: "blob option"
  n_action_details :: "blob option"
  n_focus :: "string option"
  next_list :: "next_item list"
  recognition_attempts :: "attempt list"
  nested_action_nodes :: "nested_node list option"
  nested_recognition_in_action :: "nested_node list option"
  n_node_details :: "blob option"

text \<open>
  A JavaScript number that is a difference of two \<^verbatim>\<open>Date.getTime()\<close> values is an
  integer number of milliseconds or NaN; it is an \<open>int option\<close> with \<open>None\<close> for NaN.
  The field \<open>duration\<close> of a task is moreover \<^verbatim>\<open>undefined\<close> until it is computed.
\<close>

record task =
  task_id :: int
  entry :: string
  hash :: string
  uuid :: string
  start_time :: string
  end_time :: "string option"
  status :: task_status
  nodes :: "node list"
  duration :: "int option option"
  startEventIndex :: "nat option"
  endEventIndex :: "nat option"

section \<open>JavaScript primitives\<close>

text \<open>Truthiness of a possibly missing number and of a possibly missing string.\<close>

definition truthyNum :: "int option \<Rightarrow> bool" where
  "truthyNum x = (case x of None \<Rightarrow> False | Some n \<Rightarrow> n \<noteq> 0)"

definition truthyStr :: "string option \<Rightarrow> bool" where
  "truthyStr x = (case x of None \<Rightarrow> False | Some s \<Rightarrow> s \<noteq> [])"

text \<open>\<^verbatim>\<open>x || ''\<close>, \<^verbatim>\<open>x || false\<close> and \<^verbatim>\<open>a || b\<close> on numbers.\<close>

definition orEmpty :: "string option \<Rightarrow> string" where
  "orEmpty x = (case x of None \<Rightarrow> [] | Some s \<Rightarrow> s)"

definition orFalse :: "bool option \<Rightarrow> bool" where
  "orFalse x = (case x of None \<Rightarrow> False | Some b \<Rightarrow> b)"

definition orNum :: "int option \<Rightarrow> int option \<Rightarrow> int option" where
  "orNum a b = (if truthyNum a then a else b)"

text \<open>
  A string is the sequence of the bytes of its UTF-8 encoding. \<open>whiteSpaces\<close> lists the
  encodings of the code points that \<^verbatim>\<open>String.prototype.trim\<close> strips, the WhiteSpace and
  LineTerminator code points of ECMAScript: U+0009 to U+000D, U+0020, U+00A0, U+1680,
  U+2000 to U+200A, U+2028, U+2029, U+202F, U+205F, U+3000 and U+FEFF.
\<close>

definition whiteSpaces :: "string list" where
  "whiteSpaces =
     [[CHR 0x09], [CHR 0x0A], [CHR 0x0B], [CHR 0x0C], [CHR 0x0D], [CHR 0x20],
      [CHR 0xC2, CHR 0xA0],
      [CHR 0xE1, CHR 0x9A, CHR 0x80],
      [CHR 0xE2, CHR 0x80, CHR 0x80], [CHR 0xE2, CHR 0x80, CHR 0x81], [CHR 0xE2, CHR 0x80, CHR 0x82],
      [CHR 0xE2, CHR 0x80, CHR 0x83], [CHR 0xE2, CHR 0x80, CHR 0x84], [CHR 0xE2, CHR 0x80, CHR 0x85],
      [CHR 0xE2, CHR 0x80, CHR 0x86], [CHR 0xE2, CHR 0x80, CHR 0x87], [CHR 0xE2, CHR 0x80, CHR 0x88],
      [CHR 0xE2, CHR 0x80, CHR 0x89], [CHR 0xE2, CHR 0x80, CHR 0x8A],
      [CHR 0xE2, CHR 0x80, CHR 0xA8], [CHR 0xE2, CHR 0x80, CHR 0xA9], [CHR 0xE2, CHR 0x80, CHR 0xAF],
      [CHR 0xE2, CHR 0x81, CHR 0x9F],
      [CHR 0xE3, CHR 0x80, CHR 0x80],
      [CHR 0xEF, CHR 0xBB, CHR 0xBF]]"

text \<open>Dropping from the front of a string every leading occurrence of one of the given
  byte sequences; \<open>trim\<close> does so at both ends (at the end, on the reversed string with
  the reversed sequences).\<close>

function dropLeading :: "string list \<Rightarrow> string \<Rightarrow> string" where
  "dropLeading ws s =
     (case find (\<lambda>w. w \<noteq> [] \<and> prefix w s) ws of
        None \<Rightarrow> s
      | Some w \<Rightarrow> dropLeading ws (drop (length w) s))"
  by pat_completeness auto
termination
  by (relation "measure (\<lambda>(ws, s). length s)") (auto simp: find_Some_iff prefix_def)

declare dropLeading.simps [simp del]

definition trim :: "string \<Rightarrow> string" where
  "trim s = rev (dropLeading (map rev whiteSpaces) (rev (dropLeading whiteSpaces s)))"

text \<open>\<^verbatim>\<open>String.prototype.includes\<close>.\<close>

fun includesStr :: "string \<Rightarrow> string \<Rightarrow> bool" where
  "includesStr [] sub = (sub = [])"
| "includesStr (c # cs) sub = (prefix sub (c # cs) \<or> includesStr cs sub)"

text \<open>The decimal string of an integer, as a template literal prints a number, and
  the string \<^verbatim>\<open>undefined\<close> for a missing one.\<close>

definition digit :: "nat \<Rightarrow> char" where
  "digit d = ''0123456789'' ! d"

fun showNat :: "nat \<Rightarrow> string" where
  "showNat n = (if n < 10 then [digit n] else showNat (n div 10) @ [digit (n mod 10)])"

declare showNat.simps [simp del]

definition showInt :: "int \<Rightarrow> string" where
  "showInt i = (if i < 0 then CHR ''-'' # showNat (nat (- i)) else showNat (nat i))"

definition toString :: "int option \<Rightarrow> string" where
  "toString x = (case x of None \<Rightarrow> ''undefined'' | Some i \<Rightarrow> showInt i)"

text \<open>\<^verbatim>\<open>Array.prototype.find\<close>, returning the position of the element found, which
  stands for the reference to it; and \<^verbatim>\<open>Array.prototype.slice(a, b)\<close> for
  indices within \<open>0 .. length\<close>.\<close>

fun findIndex :: "('a \<Rightarrow> bool) \<Rightarrow> 'a list \<Rightarrow> nat option" where
  "findIndex P [] = None"
| "findIndex P (x # xs) = (if P x then Some 0 else map_option Suc (findIndex P xs))"

definition slice :: "'a list \<Rightarrow> nat \<Rightarrow> nat \<Rightarrow> 'a list" where
  "slice xs a b = take (b - a) (drop a xs)"

text \<open>Modelled from the spec: \<^verbatim>\<open>StringPool.intern\<close> (\<^verbatim>\<open>./stringPool\<close> is not part
  of the sources) returns the pooled instance of a string, which has the same content.
  \<^verbatim>\<open>markRaw\<close> of the UI framework likewise returns its argument.\<close>

definition intern :: "string \<Rightarrow> string" where
  "intern s = s"

text \<open>\<^verbatim>\<open>a - b\<close> on numbers that are integers or NaN.\<close>

definition minus_ms :: "int option \<Rightarrow> int option \<Rightarrow> int option" where
  "minus_ms a b = (case (a, b) of (Some x, Some y) \<Rightarrow> Some (x - y) | _ \<Rightarrow> None)"

section \<open>LogParser.getTasks, first pass: task discovery\<close>

text \<open>
  \<open>tasks\<close> is the array of task objects, \<open>taskMap\<close> the \<^verbatim>\<open>Map<string, TaskInfo>\<close>; a
  task object is referred to by its position in \<open>tasks\<close>. The parameter \<open>getTime\<close>
  stands for \<^verbatim>\<open>new Date(s).getTime()\<close>, whose result is a number of milliseconds or
  NaN (\<open>None\<close>).
\<close>

record discovery =
  tasks :: "task list"
  taskMap :: "string \<rightharpoonup> nat"

definition taskKey :: "string \<Rightarrow> int option \<Rightarrow> string" where
  "taskKey u taskId = u @ ''_'' @ toString taskId"

definition newTask :: "nat \<Rightarrow> event \<Rightarrow> int \<Rightarrow> string \<Rightarrow> task" where
  "newTask i ev taskId u =
     \<lparr> task_id = taskId,
       entry = intern (orEmpty (d_entry (e_details ev))),
       hash = intern (orEmpty (d_hash (e_details ev))),
       uuid = intern u,
       start_time = intern (e_timestamp ev),
       end_time = None,
       status = Running,
       nodes = [],
       duration = None,
       startEventIndex = Some i,
       endEventIndex = None \<rparr>"

definition onTaskStarting :: "nat \<Rightarrow> event \<Rightarrow> discovery \<Rightarrow> discovery" where
  "onTaskStarting i ev st =
     (let taskId = d_task_id (e_details ev);
          u = orEmpty (d_uuid (e_details ev));
          k = taskKey u taskId
      in if truthyNum taskId \<and> taskMap st k = None
         then st \<lparr> tasks := tasks st @ [newTask i ev (the taskId) u],
                  taskMap := (taskMap st)(k \<mapsto> length (tasks st)) \<rparr>
         else st)"

text \<open>\<^verbatim>\<open>!t.end_time\<close>: the end time is missing or the empty string.\<close>

definition isOpen :: "task \<Rightarrow> bool" where
  "isOpen t = (\<not> truthyStr (end_time t))"

definition closeTask :: "(string \<Rightarrow> int option) \<Rightarrow> nat \<Rightarrow> event \<Rightarrow> task \<Rightarrow> task" where
  "closeTask getTime i ev t =
     (let t1 = t \<lparr> status := (if e_message ev = ''Tasker.Task.Succeeded'' then Succeeded else TaskFailed),
                   end_time := Some (intern (e_timestamp ev)),
                   endEventIndex := Some i \<rparr>
      in if start_time t1 \<noteq> [] \<and> truthyStr (end_time t1)
         then t1 \<lparr> duration := Some (minus_ms (getTime (e_timestamp ev)) (getTime (start_time t1))) \<rparr>
         else t1)"

definition onTaskFinished :: "(string \<Rightarrow> int option) \<Rightarrow> nat \<Rightarrow> event \<Rightarrow> discovery \<Rightarrow> discovery" where
  "onTaskFinished getTime i ev st =
     (let taskId = d_task_id (e_details ev);
          u = d_uuid (e_details ev);
          matchedTask =
            (if truthyStr u \<and> trim (the u) \<noteq> []
             then findIndex (\<lambda>t. uuid t = the u \<and> isOpen t) (tasks st)
             else findIndex (\<lambda>t. Some (task_id t) = taskId \<and> isOpen t) (tasks st))
      in case matchedTask of
           None \<Rightarrow> st
         | Some j \<Rightarrow> st \<lparr> tasks := (tasks st) [j := closeTask getTime i ev (tasks st ! j)] \<rparr>)"

definition discoverStep :: "(string \<Rightarrow> int option) \<Rightarrow> nat \<Rightarrow> event \<Rightarrow> discovery \<Rightarrow> discovery" where
  "discoverStep getTime i ev st =
     (if e_message ev = ''Tasker.Task.Starting'' then onTaskStarting i ev st
      else if e_message ev = ''Tasker.Task.Succeeded'' \<or> e_message ev = ''Tasker.Task.Failed''
           then onTaskFinished getTime i ev st
      else st)"

text \<open>The loop \<^verbatim>\<open>for (let i = 0; i < this.events.length; i++)\<close>, from index \<open>i\<close> on.\<close>

fun discover :: "(string \<Rightarrow> int option) \<Rightarrow> nat \<Rightarrow> event list \<Rightarrow> discovery \<Rightarrow> discovery" where
  "discover getTime i [] st = st"
| "discover getTime i (ev # evs) st = discover getTime (Suc i) evs (discoverStep getTime i ev st)"

section \<open>LogParser.getTaskNodes\<close>

text \<open>
  The local variables of \<^verbatim>\<open>getTaskNodes\<close>. The two maps are keyed by
  \<^verbatim>\<open>details.task_id\<close>, which may be \<^verbatim>\<open>undefined\<close>.
\<close>

record scan =
  sc_nodes :: "node list"
  nodeIdSet :: "int set"
  recognitionAttempts :: "attempt list"
  nestedNodes :: "nested_node list"
  nestedActionNodes :: "nested_node list"
  currentNextList :: "list_item list"
  recognitionsByTaskId :: "int option \<rightharpoonup> sub_attempt list"
  actionsByTaskId :: "int option \<rightharpoonup> sub_attempt list"

definition initScan :: scan where
  "initScan = \<lparr> sc_nodes = [], nodeIdSet = {}, recognitionAttempts = [], nestedNodes = [],
                 nestedActionNodes = [], currentNextList = [],
                 recognitionsByTaskId = Map.empty, actionsByTaskId = Map.empty \<rparr>"

definition statusOf :: "string \<Rightarrow> string \<Rightarrow> node_status" where
  "statusOf m succeeded = (if m = succeeded then Success else Failed)"

text \<open>\<^verbatim>\<open>xs.length > 0 ? xs : undefined\<close>.\<close>

definition nonEmpty :: "'a list \<Rightarrow> 'a list option" where
  "nonEmpty xs = (if xs \<noteq> [] then Some xs else None)"

definition onNextList :: "int \<Rightarrow> event \<Rightarrow> scan \<Rightarrow> scan" where
  "onNextList tid ev s =
     (if (e_message ev = ''Node.NextList.Starting'' \<or> e_message ev = ''Node.NextList.Succeeded'')
         \<and> d_task_id (e_details ev) = Some tid
      then (if e_message ev = ''Node.NextList.Starting''
            then s \<lparr> currentNextList := (case d_list (e_details ev) of None \<Rightarrow> [] | Some l \<Rightarrow> l) \<rparr>
            else s)
      else s)"

definition onRecognitionNode :: "int \<Rightarrow> event \<Rightarrow> scan \<Rightarrow> scan" where
  "onRecognitionNode tid ev s =
     (if e_message ev = ''Node.RecognitionNode.Succeeded'' \<or> e_message ev = ''Node.RecognitionNode.Failed''
      then (let d = e_details ev; taskId = d_task_id d
            in if taskId \<noteq> Some tid
               then (let nestedRecognitions =
                           (case recognitionsByTaskId s taskId of None \<Rightarrow> [] | Some l \<Rightarrow> l);
                         nestedNode =
                           \<lparr> nn_id = orNum (case d_reco_details d of None \<Rightarrow> None | Some b \<Rightarrow> b_reco_id b)
                                         (d_node_id d),
                             nn_name = intern (orEmpty (d_name d)),
                             nn_timestamp = intern (e_timestamp ev),
                             nn_status = statusOf (e_message ev) ''Node.RecognitionNode.Succeeded'',
                             nn_details = d_reco_details d,
                             nn_nested = nonEmpty nestedRecognitions \<rparr>
                     in s \<lparr> nestedNodes := nestedNodes s @ [nestedNode],
                            recognitionsByTaskId := (recognitionsByTaskId s)(taskId := None) \<rparr>)
               else s)
      else s)"

definition onActionNode :: "int \<Rightarrow> event \<Rightarrow> scan \<Rightarrow> scan" where
  "onActionNode tid ev s =
     (if e_message ev = ''Node.ActionNode.Succeeded'' \<or> e_message ev = ''Node.ActionNode.Failed''
      then (let d = e_details ev; taskId = d_task_id d
            in if taskId \<noteq> Some tid
               then (let nestedActions =
                           (case actionsByTaskId s taskId of None \<Rightarrow> [] | Some l \<Rightarrow> l);
                         nestedActionNode =
                           \<lparr> nn_id = orNum (case d_action_details d of None \<Rightarrow> None | Some b \<Rightarrow> b_action_id b)
                                         (d_node_id d),
                             nn_name = intern (orEmpty (d_name d)),
                             nn_timestamp = intern (e_timestamp ev),
                             nn_status = statusOf (e_message ev) ''Node.ActionNode.Succeeded'',
                             nn_details = d_action_details d,
                             nn_nested = nonEmpty nestedActions \<rparr>
                     in s \<lparr> nestedActionNodes := nestedActionNodes s @ [nestedActionNode],
                            actionsByTaskId := (actionsByTaskId s)(taskId := None) \<rparr>)
               else s)
      else s)"

definition pushTo :: "('k \<rightharpoonup> 'v list) \<Rightarrow> 'k \<Rightarrow> 'v \<Rightarrow> ('k \<rightharpoonup> 'v list)" where
  "pushTo m k v = m(k \<mapsto> (case m k of None \<Rightarrow> [] | Some l \<Rightarrow> l) @ [v])"

definition onRecognition :: "int \<Rightarrow> event \<Rightarrow> scan \<Rightarrow> scan" where
  "onRecognition tid ev s =
     (if e_message ev = ''Node.Recognition.Succeeded'' \<or> e_message ev = ''Node.Recognition.Failed''
      then (let d = e_details ev; taskId = d_task_id d
            in if taskId = Some tid
               then s \<lparr> recognitionAttempts := recognitionAttempts s @
                          [\<lparr> a_reco_id = d_reco_id d,
                             a_name = intern (orEmpty (d_name d)),
                             a_timestamp = intern (e_timestamp ev),
                             a_status = statusOf (e_message ev) ''Node.Recognition.Succeeded'',
                             a_reco_details = d_reco_details d,
                             a_nested_nodes = nonEmpty (nestedNodes s) \<rparr>],
                        nestedNodes := [] \<rparr>
               else s \<lparr> recognitionsByTaskId := pushTo (recognitionsByTaskId s) taskId
                          \<lparr> s_id = d_reco_id d,
                            s_name = intern (orEmpty (d_name d)),
                            s_timestamp = intern (e_timestamp ev),
                            s_status = statusOf (e_message ev) ''Node.Recognition.Succeeded'',
                            s_details = d_reco_details d \<rparr> \<rparr>)
      else s)"

definition onAction :: "int \<Rightarrow> event \<Rightarrow> scan \<Rightarrow> scan" where
  "onAction tid ev s =
     (if e_message ev = ''Node.Action.Succeeded'' \<or> e_message ev = ''Node.Action.Failed''
      then (let d = e_details ev; taskId = d_task_id d
            in if taskId \<noteq> Some tid
               then s \<lparr> actionsByTaskId := pushTo (actionsByTaskId s) taskId
                          \<lparr> s_id = d_action_id d,
                            s_name = intern (orEmpty (d_name d)),
                            s_timestamp = intern (e_timestamp ev),
                            s_status = statusOf (e_message ev) ''Node.Action.Succeeded'',
                            s_details = d_action_details d \<rparr> \<rparr>
               else s)
      else s)"

definition nodeName :: "details \<Rightarrow> string" where
  "nodeName d =
     (let n1 = (case d_node_details d of None \<Rightarrow> None | Some b \<Rightarrow> b_name b)
      in if truthyStr n1 then the n1 else if truthyStr (d_name d) then the (d_name d) else [])"

definition mkNode :: "int \<Rightarrow> event \<Rightarrow> scan \<Rightarrow> int \<Rightarrow> node" where
  "mkNode tid ev s nodeId =
     (let d = e_details ev
      in \<lparr> node_id = nodeId,
           n_name = intern (nodeName d),
           n_timestamp = intern (e_timestamp ev),
           n_status = statusOf (e_message ev) ''Node.PipelineNode.Succeeded'',
           n_task_id = tid,
           n_reco_details = d_reco_details d,
           n_action_details = d_action_details d,
           n_focus = (if truthyStr (d_focus d) then d_focus d else None),
           next_list = map (\<lambda>item. \<lparr> nx_name = intern (orEmpty (i_name item)),
                                        nx_anchor = orFalse (i_anchor item),
                                        nx_jump_back = orFalse (i_jump_back item) \<rparr>)
                           (currentNextList s),
           recognition_attempts = recognitionAttempts s,
           nested_action_nodes = nonEmpty (nestedActionNodes s),
           nested_recognition_in_action = nonEmpty (nestedNodes s),
           n_node_details = d_node_details d \<rparr>)"

definition onPipelineNode :: "int \<Rightarrow> event \<Rightarrow> scan \<Rightarrow> scan" where
  "onPipelineNode tid ev s =
     (if (e_message ev = ''Node.PipelineNode.Succeeded'' \<or> e_message ev = ''Node.PipelineNode.Failed'')
         \<and> d_task_id (e_details ev) = Some tid
      then (let nodeId = d_node_id (e_details ev);
                s1 = (if truthyNum nodeId \<and> the nodeId \<notin> nodeIdSet s
                      then s \<lparr> sc_nodes := sc_nodes s @ [mkNode tid ev s (the nodeId)],
                               nodeIdSet := insert (the nodeId) (nodeIdSet s) \<rparr>
                      else s)
            in s1 \<lparr> currentNextList := [], recognitionAttempts := [],
                    nestedActionNodes := [], nestedNodes := [] \<rparr>)
      else s)"

text \<open>The body of the loop over the events of the task: its \<^verbatim>\<open>if\<close> statements in
  the order of the source.\<close>

definition scanStep :: "int \<Rightarrow> event \<Rightarrow> scan \<Rightarrow> scan" where
  "scanStep tid ev s =
     onPipelineNode tid ev (onAction tid ev (onRecognition tid ev
       (onActionNode tid ev (onRecognitionNode tid ev (onNextList tid ev s)))))"

fun scanEvents :: "int \<Rightarrow> event list \<Rightarrow> scan \<Rightarrow> scan" where
  "scanEvents tid [] s = s"
| "scanEvents tid (ev # evs) s = scanEvents tid evs (scanStep tid ev s)"

text \<open>
  \<^verbatim>\<open>taskStartIndex = task._startEventIndex ?? -1\<close> and
  \<^verbatim>\<open>taskEndIndex = task._endEventIndex ?? this.events.length - 1\<close>; the events of the
  task are \<^verbatim>\<open>this.events.slice(taskStartIndex, taskEndIndex + 1)\<close>.
\<close>

definition getTaskNodes :: "event list \<Rightarrow> task \<Rightarrow> node list" where
  "getTaskNodes evs t =
     (case startEventIndex t of
        None \<Rightarrow> []
      | Some taskStartIndex \<Rightarrow>
          (let endPlusOne = (case endEventIndex t of None \<Rightarrow> length evs | Some taskEndIndex \<Rightarrow> taskEndIndex + 1);
               taskEvents = slice evs taskStartIndex endPlusOne
           in sc_nodes (scanEvents (task_id t) taskEvents initScan)))"

section \<open>LogParser.getTasks\<close>

text \<open>The second loop of \<^verbatim>\<open>getTasks\<close>, on one task.\<close>

definition attachNodes :: "(string \<Rightarrow> int option) \<Rightarrow> event list \<Rightarrow> task \<Rightarrow> task" where
  "attachNodes getTime evs t =
     (let t1 = t \<lparr> nodes := getTaskNodes evs t \<rparr>
      in if status t1 = Running \<and> nodes t1 \<noteq> []
         then t1 \<lparr> duration := Some (minus_ms (getTime (n_timestamp (last (nodes t1))))
                                                (getTime (start_time t1))) \<rparr>
         else t1)"

text \<open>All tasks that \<^verbatim>\<open>getTasks\<close> builds, before it filters the result.\<close>

definition buildTasks :: "(string \<Rightarrow> int option) \<Rightarrow> event list \<Rightarrow> task list" where
  "buildTasks getTime evs =
     map (attachNodes getTime evs)
         (tasks (discover getTime 0 evs \<lparr> tasks = [], taskMap = Map.empty \<rparr>))"

text \<open>
  The fields of the parser object. \<open>taskProcessMap\<close> and \<open>taskThreadMap\<close> are
  association lists in insertion order, the order in which a JavaScript \<^verbatim>\<open>Map\<close>
  enumerates its values.
\<close>

record parser =
  events :: "event list"
  processIds :: "string set"
  threadIds :: "string set"
  taskProcessMap :: "(int \<times> string) list"
  taskThreadMap :: "(int \<times> string) list"

text \<open>\<^verbatim>\<open>getTasks\<close> returns the tasks and leaves the parser with an empty event list.\<close>

definition getTasks :: "(string \<Rightarrow> int option) \<Rightarrow> parser \<Rightarrow> task list \<times> parser" where
  "getTasks getTime p =
     (filter (\<lambda>t. entry t \<noteq> ''MaaTaskerPostStop'') (buildTasks getTime (events p)),
      p \<lparr> events := [] \<rparr>)"

definition getEvents :: "parser \<Rightarrow> event list" where
  "getEvents p = events p"

section \<open>The event extractor and the owner maps\<close>

text \<open>
  Modelled from the spec: a decoded line (LogLine of \<^verbatim>\<open>../types\<close>), with the two
  parameters that \<^verbatim>\<open>parseEventNotification\<close> reads: \<open>l_msg\<close> is \<^verbatim>\<open>params['msg']\<close>
  and \<open>l_details\<close> is \<^verbatim>\<open>params['details']\<close>.
\<close>

record logLine =
  l_timestamp :: string
  l_level :: string
  l_processId :: string
  l_threadId :: string
  l_message :: string
  l_msg :: "string option"
  l_details :: "details option"
  l_lineNumber :: nat

datatype error = TypeError

definition emptyDetails :: details where
  "emptyDetails =
     \<lparr> d_task_id = None, d_uuid = None, d_entry = None, d_hash = None, d_node_id = None,
       d_name = None, d_reco_id = None, d_action_id = None, d_list = None,
       d_reco_details = None, d_action_details = None, d_node_details = None, d_focus = None \<rparr>"

definition mkEvent :: "logLine \<Rightarrow> string \<Rightarrow> event" where
  "mkEvent l msg =
     \<lparr> e_timestamp = l_timestamp l, e_level = l_level l, e_message = msg,
       e_details = (case l_details l of None \<Rightarrow> emptyDetails | Some d \<Rightarrow> d),
       e_lineNumber = l_lineNumber l \<rparr>"

text \<open>\<^verbatim>\<open>if (!map.has(task_id)) { taskProcessMap.set(...); taskThreadMap.set(...) }\<close>.\<close>

definition recordOwner :: "int \<Rightarrow> logLine \<Rightarrow> parser \<Rightarrow> parser" where
  "recordOwner taskId l p =
     (if map_of (taskProcessMap p) taskId = None
      then p \<lparr> taskProcessMap := taskProcessMap p @ [(taskId, l_processId l)],
               taskThreadMap := taskThreadMap p @ [(taskId, l_threadId l)] \<rparr>
      else p)"

text \<open>Reading \<^verbatim>\<open>details.task_id\<close> of a missing \<^verbatim>\<open>details\<close> throws; \<open>Inl\<close> is the
  exception, \<open>Inr (None, p)\<close> the result \<^verbatim>\<open>null\<close>.\<close>

definition parseEventNotification :: "logLine \<Rightarrow> parser \<Rightarrow> error + (event option \<times> parser)" where
  "parseEventNotification l p =
     (if \<not> includesStr (l_message l) ''!!!OnEventNotify!!!'' then Inr (None, p)
      else if \<not> truthyStr (l_msg l) then Inr (None, p)
      else if l_msg l = Some ''Tasker.Task.Starting''
      then (case l_details l of
              None \<Rightarrow> Inl TypeError
            | Some d \<Rightarrow>
                Inr (Some (mkEvent l (the (l_msg l))),
                     if truthyNum (d_task_id d) then recordOwner (the (d_task_id d)) l p else p))
      else Inr (Some (mkEvent l (the (l_msg l))), p))"

text \<open>
  One iteration of the loop of \<^verbatim>\<open>parseFile\<close> over the lines. A line is the trimmed
  raw text together with the LogLine that the grammar of \<^verbatim>\<open>parseLine\<close> decodes from
  it (\<open>None\<close> when the text does not match; the regular expression itself is outside
  the model). \<^verbatim>\<open>parseLine\<close> registers the process and thread id of each line it
  decodes; an exception is caught and drops the line.
\<close>

definition ingestLine :: "string \<times> logLine option \<Rightarrow> event list \<times> parser \<Rightarrow> event list \<times> parser" where
  "ingestLine rl acc =
     (case acc of (evs, p) \<Rightarrow>
       (case rl of (rawLine, parsed) \<Rightarrow>
         if rawLine = [] then (evs, p)
         else (case parsed of
                 None \<Rightarrow> (evs, p)
               | Some l \<Rightarrow>
                   (let p1 = p \<lparr> processIds := insert (l_processId l) (processIds p),
                                 threadIds := insert (l_threadId l) (threadIds p) \<rparr>
                    in if includesStr rawLine ''!!!OnEventNotify!!!''
                       then (case parseEventNotification l p1 of
                               Inl e \<Rightarrow> (evs, p1)
                             | Inr (None, p2) \<Rightarrow> (evs, p2)
                             | Inr (Some ev, p2) \<Rightarrow> (evs @ [ev], p2))
                       else (evs, p1)))))"

fun ingestLines :: "(string \<times> logLine option) list \<Rightarrow> event list \<times> parser \<Rightarrow> event list \<times> parser" where
  "ingestLines [] acc = acc"
| "ingestLines (rl # rls) acc = ingestLines rls (ingestLine rl acc)"

definition parseFile :: "(string \<times> logLine option) list \<Rightarrow> parser \<Rightarrow> parser" where
  "parseFile rls p =
     (case ingestLines rls ([], p \<lparr> processIds := {}, threadIds := {},
                                     taskProcessMap := [], taskThreadMap := [] \<rparr>) of
        (evs, p1) \<Rightarrow> p1 \<lparr> events := evs \<rparr>)"

text \<open>\<^verbatim>\<open>Array.from(new Set(map.values())).sort()\<close>: the default sort orders strings
  by their UTF-16 code units, which is the order of the bytes of the UTF-8 encoding for
  all strings without characters beyond U+FFFF.\<close>

definition getProcessIds :: "parser \<Rightarrow> string list" where
  "getProcessIds p = sort (remdups (map snd (taskProcessMap p)))"

definition getThreadIds :: "parser \<Rightarrow> string list" where
  "getThreadIds p = sort (remdups (map snd (taskThreadMap p)))"

definition getTaskProcessId :: "parser \<Rightarrow> int \<Rightarrow> string option" where
  "getTaskProcessId p taskId = map_of (taskProcessMap p) taskId"

definition getTaskThreadId :: "parser \<Rightarrow> int \<Rightarrow> string option" where
  "getTaskThreadId p taskId = map_of (taskThreadMap p) taskId"

section \<open>NodeStatisticsAnalyzer\<close>

text \<open>
  Numbers of the analyzer: a duration is an integer number of milliseconds or NaN
  (\<open>None\<close>); an average or a rate is a double or NaN. A comparison with NaN is false.
  Sums and differences of integers are exact in double arithmetic while they stay below
  \<open>2 ^ 53\<close> in magnitude. A time value of \<^verbatim>\<open>Date\<close> is an integer below \<open>2 ^ 53\<close> in
  magnitude, and the difference of two time values is exact unless the two dates lie
  more than 285000 years apart; a sum of durations that passed the filter stays below
  \<open>2 ^ 53\<close> in any log that fits in memory. The model computes sums and differences
  exactly.

  A double is a rational with a significand of 53 bits. \<open>roundDouble x\<close> is the double
  nearest to \<open>x\<close>, ties going to the even significand, as IEEE 754 rounds the exact
  result of a division or a multiplication: \<open>expo x\<close> is the exponent \<open>e\<close> with
  \<open>2 powi e \<le> x < 2 powi (e + 1)\<close>, and \<open>x\<close> is rounded to a multiple of
  \<open>2 powi (e - 52)\<close>. The exponent is not bounded in the model: the quotients and
  products of the analyzer are 0 or lie between \<open>2 powi (- 33)\<close> and \<open>2 powi 53\<close>, far
  from overflow and from subnormal numbers.
\<close>

definition expo :: "rat \<Rightarrow> int" where
  "expo x = (if 1 \<le> x then bitlen \<lfloor>x\<rfloor> - 1 else - bitlen (\<lceil>1 / x\<rceil> - 1))"

text \<open>Rounding to the nearest integer, a tie to the even one.\<close>

definition rne :: "rat \<Rightarrow> int" where
  "rne q = (let f = \<lfloor>q\<rfloor>; r = q - of_int f
            in if r < 1 / 2 then f else if 1 / 2 < r then f + 1 else if even f then f else f + 1)"

definition roundDouble :: "rat \<Rightarrow> rat" where
  "roundDouble x =
     (if x = 0 then 0
      else (let a = \<bar>x\<bar>; u = 2 powi (expo a - 52)
            in sgn x * of_int (rne (a / u)) * u))"

definition ltNum :: "int option \<Rightarrow> int \<Rightarrow> bool" where
  "ltNum a c = (case a of None \<Rightarrow> False | Some x \<Rightarrow> x < c)"

definition gtNum :: "int option \<Rightarrow> int \<Rightarrow> bool" where
  "gtNum a c = (case a of None \<Rightarrow> False | Some x \<Rightarrow> x > c)"

definition geNum :: "int option \<Rightarrow> int \<Rightarrow> bool" where
  "geNum a c = (case a of None \<Rightarrow> False | Some x \<Rightarrow> x \<ge> c)"

definition plus_ms :: "int option \<Rightarrow> int option \<Rightarrow> int option" where
  "plus_ms a b = (case (a, b) of (Some x, Some y) \<Rightarrow> Some (x + y) | _ \<Rightarrow> None)"

text \<open>\<^verbatim>\<open>xs.reduce((sum, d) => sum + d, 0)\<close>.\<close>

definition sumNum :: "int option list \<Rightarrow> int option" where
  "sumNum xs = foldl plus_ms (Some 0) xs"

text \<open>\<^verbatim>\<open>Math.min(...xs)\<close> and \<^verbatim>\<open>Math.max(...xs)\<close> of a non-empty array: NaN when an
  element is NaN. The source calls them on non-empty arrays only (it tests the count
  first); on the empty list the model answers \<open>None\<close>.\<close>

definition minNum :: "int option list \<Rightarrow> int option" where
  "minNum xs = (case xs of [] \<Rightarrow> None
                | x # ys \<Rightarrow> foldl (\<lambda>a b. case (a, b) of (Some u, Some v) \<Rightarrow> Some (min u v) | _ \<Rightarrow> None) x ys)"

definition maxNum :: "int option list \<Rightarrow> int option" where
  "maxNum xs = (case xs of [] \<Rightarrow> None
                | x # ys \<Rightarrow> foldl (\<lambda>a b. case (a, b) of (Some u, Some v) \<Rightarrow> Some (max u v) | _ \<Rightarrow> None) x ys)"

text \<open>\<^verbatim>\<open>total / count\<close> for a count: \<^verbatim>\<open>0 / 0\<close> is NaN. Where the source divides by
  a count that may be 0, the numerator is a sum over as many elements, so it is 0 too.\<close>

definition divCount :: "int option \<Rightarrow> nat \<Rightarrow> rat option" where
  "divCount tot n =
     (case tot of None \<Rightarrow> None
      | Some x \<Rightarrow> if n = 0 then None else Some (roundDouble (of_int x / of_nat n)))"

text \<open>\<^verbatim>\<open>(successCount / (successCount + failCount)) * 100\<close>: the quotient is rounded to a
  double, then the product is.\<close>

definition rate :: "nat \<Rightarrow> nat \<Rightarrow> rat option" where
  "rate s f =
     (if s + f = 0 then None
      else Some (roundDouble (roundDouble (of_nat s / of_nat (s + f)) * 100)))"

text \<open>
  \<^verbatim>\<open>Array.prototype.sort(cmp)\<close> as a stable insertion sort: an element moves behind
  another one only when \<open>cmp\<close> of the two is positive (a NaN result counts as 0). The
  difference of two doubles has the sign of their exact difference, so the comparators
  are computed exactly. When an average is NaN the comparator is not a consistent
  order, and ECMAScript leaves the order of the sorted rows to the engine; the model
  then gives one order of the same rows.
\<close>

definition positive :: "rat option \<Rightarrow> bool" where
  "positive r = (case r of None \<Rightarrow> False | Some x \<Rightarrow> x > 0)"

fun insertBy :: "('a \<Rightarrow> 'a \<Rightarrow> rat option) \<Rightarrow> 'a \<Rightarrow> 'a list \<Rightarrow> 'a list" where
  "insertBy cmp x [] = [x]"
| "insertBy cmp x (y # ys) = (if positive (cmp x y) then y # insertBy cmp x ys else x # y # ys)"

definition sortBy :: "('a \<Rightarrow> 'a \<Rightarrow> rat option) \<Rightarrow> 'a list \<Rightarrow> 'a list" where
  "sortBy cmp xs = foldr (insertBy cmp) xs []"

definition minus_rat :: "rat option \<Rightarrow> rat option \<Rightarrow> rat option" where
  "minus_rat a b = (case (a, b) of (Some x, Some y) \<Rightarrow> Some (x - y) | _ \<Rightarrow> None)"

text \<open>A \<^verbatim>\<open>Map<string, V>\<close> in insertion order: \<^verbatim>\<open>if (!m.has(k)) m.set(k, v)\<close> and the
  in-place update of \<^verbatim>\<open>m.get(k)\<close>.\<close>

definition ensure :: "string \<Rightarrow> 'v \<Rightarrow> (string \<times> 'v) list \<Rightarrow> (string \<times> 'v) list" where
  "ensure k v m = (if map_of m k = None then m @ [(k, v)] else m)"

definition modify :: "string \<Rightarrow> ('v \<Rightarrow> 'v) \<Rightarrow> (string \<times> 'v) list \<Rightarrow> (string \<times> 'v) list" where
  "modify k f m = map (\<lambda>(k', v). if k' = k then (k', f v) else (k', v)) m"

subsection \<open>analyze\<close>

record nodeStats =
  st_durations :: "int option list"
  st_successCount :: nat
  st_failCount :: nat

record nodeStatistics =
  ns_name :: string
  ns_count :: nat
  ns_totalDuration :: "int option"
  ns_avgDuration :: "rat option"
  ns_minDuration :: "int option"
  ns_maxDuration :: "int option"
  ns_successCount :: nat
  ns_failCount :: nat
  ns_successRate :: "rat option"
  ns_durations :: "int option list"

text \<open>The duration of a node; \<open>None\<close> is the \<^verbatim>\<open>continue\<close> of the last node of a task
  that has not ended.\<close>

definition nodeDuration :: "(string \<Rightarrow> int option) \<Rightarrow> task \<Rightarrow> node \<Rightarrow> node option \<Rightarrow> int option option" where
  "nodeDuration getTime t nd nextNode =
     (case nextNode of
        Some nx \<Rightarrow> Some (minus_ms (getTime (n_timestamp nx)) (getTime (n_timestamp nd)))
      | None \<Rightarrow>
          if truthyStr (end_time t)
          then Some (minus_ms (getTime (the (end_time t))) (getTime (n_timestamp nd)))
          else None)"

definition recordNode :: "node \<Rightarrow> int option \<Rightarrow> nodeStats \<Rightarrow> nodeStats" where
  "recordNode nd d st =
     (let st1 = st \<lparr> st_durations := st_durations st @ [d] \<rparr>
      in if n_status nd = Success
         then st1 \<lparr> st_successCount := st_successCount st1 + 1 \<rparr>
         else st1 \<lparr> st_failCount := st_failCount st1 + 1 \<rparr>)"

definition analyzeNode ::
  "(string \<Rightarrow> int option) \<Rightarrow> task \<Rightarrow> node \<Rightarrow> node option \<Rightarrow> (string \<times> nodeStats) list \<Rightarrow> (string \<times> nodeStats) list" where
  "analyzeNode getTime t nd nextNode statsMap =
     (case nodeDuration getTime t nd nextNode of
        None \<Rightarrow> statsMap
      | Some d \<Rightarrow>
          if ltNum d 0 \<or> gtNum d 3600000 then statsMap
          else modify (n_name nd) (recordNode nd d)
                 (ensure (n_name nd) \<lparr> st_durations = [], st_successCount = 0, st_failCount = 0 \<rparr> statsMap))"

text \<open>The loop over \<^verbatim>\<open>nodes[i]\<close> with \<^verbatim>\<open>nextNode = nodes[i + 1]\<close>.\<close>

fun analyzeNodes ::
  "(string \<Rightarrow> int option) \<Rightarrow> task \<Rightarrow> node list \<Rightarrow> (string \<times> nodeStats) list \<Rightarrow> (string \<times> nodeStats) list" where
  "analyzeNodes getTime t [] statsMap = statsMap"
| "analyzeNodes getTime t (nd # rest) statsMap =
     analyzeNodes getTime t rest
       (analyzeNode getTime t nd (case rest of [] \<Rightarrow> None | nx # _ \<Rightarrow> Some nx) statsMap)"

fun analyzeTasks ::
  "(string \<Rightarrow> int option) \<Rightarrow> task list \<Rightarrow> (string \<times> nodeStats) list \<Rightarrow> (string \<times> nodeStats) list" where
  "analyzeTasks getTime [] statsMap = statsMap"
| "analyzeTasks getTime (t # ts) statsMap =
     analyzeTasks getTime ts (analyzeNodes getTime t (nodes t) statsMap)"

definition mkRow :: "string \<times> nodeStats \<Rightarrow> nodeStatistics list" where
  "mkRow e =
     (case e of (name, stats) \<Rightarrow>
        (let durations = st_durations stats;
             count = length durations
         in if count = 0 then []
            else (let totalDuration = sumNum durations
                  in [\<lparr> ns_name = name,
                        ns_count = count,
                        ns_totalDuration = totalDuration,
                        ns_avgDuration = divCount totalDuration count,
                        ns_minDuration = minNum durations,
                        ns_maxDuration = maxNum durations,
                        ns_successCount = st_successCount stats,
                        ns_failCount = st_failCount stats,
                        ns_successRate = rate (st_successCount stats) (st_failCount stats),
                        ns_durations = durations \<rparr>])))"

definition analyze :: "(string \<Rightarrow> int option) \<Rightarrow> task list \<Rightarrow> nodeStatistics list" where
  "analyze getTime ts =
     sortBy (\<lambda>a b. minus_rat (ns_avgDuration b) (ns_avgDuration a))
       (concat (map mkRow (analyzeTasks getTime ts [])))"

subsection \<open>analyzeRecognitionAction\<close>

record phaseStats =
  ps_recognitionDurations :: "int option list"
  ps_actionDurations :: "int option list"
  ps_recognitionAttempts :: "nat list"
  ps_successCount :: nat
  ps_failCount :: nat

record recognitionActionStatistics =
  ra_name :: string
  ra_count :: nat
  ra_avgRecognitionDuration :: "rat option"
  ra_minRecognitionDuration :: "int option"
  ra_maxRecognitionDuration :: "int option"
  ra_totalRecognitionDuration :: "int option"
  ra_recognitionCount :: nat
  ra_avgActionDuration :: "rat option"
  ra_minActionDuration :: "int option"
  ra_maxActionDuration :: "int option"
  ra_totalActionDuration :: "int option"
  ra_actionCount :: nat
  ra_avgRecognitionAttempts :: "rat option"
  ra_totalRecognitionAttempts :: nat
  ra_successCount :: nat
  ra_failCount :: nat
  ra_successRate :: "rat option"

text \<open>The body of the loop for a node with at least one recognition attempt, on the
  record of its name.\<close>

definition recordPhases :: "(string \<Rightarrow> int option) \<Rightarrow> node \<Rightarrow> phaseStats \<Rightarrow> phaseStats" where
  "recordPhases getTime nd st =
     (let attempts = recognition_attempts nd;
          st1 = st \<lparr> ps_recognitionAttempts := ps_recognitionAttempts st @ [length attempts] \<rparr>;
          st3 =
            (case attempts of
               [] \<Rightarrow> st1
             | firstAttempt # _ \<Rightarrow>
                 (let firstAttemptTime = getTime (a_timestamp firstAttempt);
                      lastAttemptTime = getTime (a_timestamp (last attempts));
                      recognitionDuration = minus_ms lastAttemptTime firstAttemptTime;
                      st2 = (if length attempts > 1 \<and> geNum recognitionDuration 0
                                \<and> ltNum recognitionDuration 3600000
                             then st1 \<lparr> ps_recognitionDurations :=
                                          ps_recognitionDurations st1 @ [recognitionDuration] \<rparr>
                             else st1);
                      nodeCompleteTime = getTime (n_timestamp nd);
                      actionDuration = minus_ms nodeCompleteTime lastAttemptTime
                  in if geNum actionDuration 0 \<and> ltNum actionDuration 3600000
                     then st2 \<lparr> ps_actionDurations := ps_actionDurations st2 @ [actionDuration] \<rparr>
                     else st2))
      in if n_status nd = Success
         then st3 \<lparr> ps_successCount := ps_successCount st3 + 1 \<rparr>
         else st3 \<lparr> ps_failCount := ps_failCount st3 + 1 \<rparr>)"

definition phaseNode ::
  "(string \<Rightarrow> int option) \<Rightarrow> node \<Rightarrow> (string \<times> phaseStats) list \<Rightarrow> (string \<times> phaseStats) list" where
  "phaseNode getTime nd statsMap =
     (if recognition_attempts nd = [] then statsMap
      else modify (n_name nd) (recordPhases getTime nd)
             (ensure (n_name nd)
                \<lparr> ps_recognitionDurations = [], ps_actionDurations = [], ps_recognitionAttempts = [],
                  ps_successCount = 0, ps_failCount = 0 \<rparr> statsMap))"

fun phaseNodes ::
  "(string \<Rightarrow> int option) \<Rightarrow> node list \<Rightarrow> (string \<times> phaseStats) list \<Rightarrow> (string \<times> phaseStats) list" where
  "phaseNodes getTime [] statsMap = statsMap"
| "phaseNodes getTime (nd # rest) statsMap = phaseNodes getTime rest (phaseNode getTime nd statsMap)"

fun phaseTasks ::
  "(string \<Rightarrow> int option) \<Rightarrow> task list \<Rightarrow> (string \<times> phaseStats) list \<Rightarrow> (string \<times> phaseStats) list" where
  "phaseTasks getTime [] statsMap = statsMap"
| "phaseTasks getTime (t # ts) statsMap = phaseTasks getTime ts (phaseNodes getTime (nodes t) statsMap)"

text \<open>\<^verbatim>\<open>n > 0 ? x : 0\<close>.\<close>

definition orZero :: "nat \<Rightarrow> 'a::zero option \<Rightarrow> 'a option" where
  "orZero n x = (if n > 0 then x else Some 0)"

definition mkPhaseRow :: "string \<times> phaseStats \<Rightarrow> recognitionActionStatistics list" where
  "mkPhaseRow e =
     (case e of (name, stats) \<Rightarrow>
        (let count = ps_successCount stats + ps_failCount stats
         in if count = 0 then []
            else (let recognitionDurations = ps_recognitionDurations stats;
                      recognitionCount = length recognitionDurations;
                      totalRecognitionDuration = sumNum recognitionDurations;
                      actionDurations = ps_actionDurations stats;
                      actionCount = length actionDurations;
                      totalActionDuration = sumNum actionDurations;
                      totalRecognitionAttempts = sum_list (ps_recognitionAttempts stats)
                  in [\<lparr> ra_name = name,
                        ra_count = count,
                        ra_avgRecognitionDuration =
                          orZero recognitionCount (divCount totalRecognitionDuration recognitionCount),
                        ra_minRecognitionDuration = orZero recognitionCount (minNum recognitionDurations),
                        ra_maxRecognitionDuration = orZero recognitionCount (maxNum recognitionDurations),
                        ra_totalRecognitionDuration = totalRecognitionDuration,
                        ra_recognitionCount = recognitionCount,
                        ra_avgActionDuration = orZero actionCount (divCount totalActionDuration actionCount),
                        ra_minActionDuration = orZero actionCount (minNum actionDurations),
                        ra_maxActionDuration = orZero actionCount (maxNum actionDurations),
                        ra_totalActionDuration = totalActionDuration,
                        ra_actionCount = actionCount,
                        ra_avgRecognitionAttempts =
                          divCount (Some (int totalRecognitionAttempts)) (length (ps_recognitionAttempts stats)),
                        ra_totalRecognitionAttempts = totalRecognitionAttempts,
                        ra_successCount = ps_successCount stats,
                        ra_failCount = ps_failCount stats,
                        ra_successRate = rate (ps_successCount stats) (ps_failCount stats) \<rparr>])))"

definition analyzeRecognitionAction ::
  "(string \<Rightarrow> int option) \<Rightarrow> task list \<Rightarrow> recognitionActionStatistics list" where
  "analyzeRecognitionAction getTime ts =
     sortBy (\<lambda>a b. minus_rat (ra_avgActionDuration b) (ra_avgActionDuration a))
       (concat (map mkPhaseRow (phaseTasks getTime ts [])))"

section \<open>Example inputs\<close>

text \<open>An event with a given timestamp, message and details; a parser that holds a
  given event list; and a clock for which no timestamp is a valid date.\<close>

definition eventOf :: "string \<Rightarrow> string \<Rightarrow> details \<Rightarrow> event" where
  "eventOf ts msg d =
     \<lparr> e_timestamp = ts, e_level = ''info'', e_message = msg, e_details = d, e_lineNumber = 0 \<rparr>"

definition parserOf :: "event list \<Rightarrow> parser" where
  "parserOf evs =
     \<lparr> events = evs, processIds = {}, threadIds = {}, taskProcessMap = [], taskThreadMap = [] \<rparr>"

definition noClock :: "string \<Rightarrow> int option" where
  "noClock s = None"

text \<open>A line that carries a \<^verbatim>\<open>Tasker.Task.Starting\<close> notification from a given process
  and thread, for a given task id and entry (the raw text is cut down to the marker).\<close>

definition startLine :: "string \<Rightarrow> string \<Rightarrow> int \<Rightarrow> string \<Rightarrow> string \<times> logLine option" where
  "startLine pid tid taskId ent =
     (''!!!OnEventNotify!!!'',
      Some \<lparr> l_timestamp = ''2025-01-01 00:00:00.000'', l_level = ''INF'',
             l_processId = pid, l_threadId = tid, l_message = ''!!!OnEventNotify!!!'',
             l_msg = Some ''Tasker.Task.Starting'',
             l_details = Some (emptyDetails \<lparr> d_task_id := Some taskId, d_entry := Some ent \<rparr>),
             l_lineNumber = 1 \<rparr>)"

text \<open>A node and a task for the analyzer, with the fields that it reads, and a clock
  that knows two timestamps one hour apart.\<close>

definition attemptAt :: "string \<Rightarrow> attempt" where
  "attemptAt ts =
     \<lparr> a_reco_id = Some 1, a_name = ''R'', a_timestamp = ts, a_status = Success,
       a_reco_details = None, a_nested_nodes = None \<rparr>"

definition nodeAt :: "string \<Rightarrow> string \<Rightarrow> node_status \<Rightarrow> attempt list \<Rightarrow> node" where
  "nodeAt nm ts st atts =
     \<lparr> node_id = 1, n_name = nm, n_timestamp = ts, n_status = st, n_task_id = 1,
       n_reco_details = None, n_action_details = None, n_focus = None, next_list = [],
       recognition_attempts = atts, nested_action_nodes = None,
       nested_recognition_in_action = None, n_node_details = None \<rparr>"

definition taskOf :: "node list \<Rightarrow> string option \<Rightarrow> task" where
  "taskOf nds endTime =
     \<lparr> task_id = 1, entry = ''E'', hash = [], uuid = [], start_time = ''00:00:00.000'',
       end_time = endTime, status = (if endTime = None then Running else Succeeded),
       nodes = nds, duration = None, startEventIndex = Some 0, endEventIndex = None \<rparr>"

definition hourClock :: "string \<Rightarrow> int option" where
  "hourClock s =
     (if s = ''00:00:00.000'' then Some 0
      else if s = ''01:00:00.000'' then Some 3600000
      else None)"

section \<open>Invariants of the reconstruction\<close>

text \<open>The key under which \<^verbatim>\<open>getTasks\<close> files a task, and what holds of the task array
  and of \<^verbatim>\<open>taskMap\<close> throughout the first loop: the map knows exactly the keys of the
  tasks, no two tasks have the same key, and no task has the id 0.\<close>

definition keyOf :: "task \<Rightarrow> string" where
  "keyOf t = taskKey (uuid t) (Some (task_id t))"

definition discovery_inv :: "discovery \<Rightarrow> bool" where
  "discovery_inv st \<longleftrightarrow>
     dom (taskMap st) = keyOf ` set (tasks st) \<and> distinct (map keyOf (tasks st))
     \<and> (\<forall>t\<in>set (tasks st). task_id t \<noteq> 0)"

text \<open>A task was created by the event at its start index: a
  \<^verbatim>\<open>Tasker.Task.Starting\<close> event of the list that carries the id of the task.\<close>

definition startedAt :: "event list \<Rightarrow> task \<Rightarrow> bool" where
  "startedAt evs t =
     (case startEventIndex t of
        None \<Rightarrow> False
      | Some k \<Rightarrow> k < length evs \<and> e_message (evs ! k) = ''Tasker.Task.Starting''
                 \<and> d_task_id (e_details (evs ! k)) = Some (task_id t))"

text \<open>What holds of \<^verbatim>\<open>nodes\<close> and \<^verbatim>\<open>nodeIdSet\<close> throughout the loop of
  \<^verbatim>\<open>getTaskNodes\<close>.\<close>

definition scan_inv :: "scan \<Rightarrow> bool" where
  "scan_inv s \<longleftrightarrow>
     nodeIdSet s = node_id ` set (sc_nodes s) \<and> distinct (map node_id (sc_nodes s))
     \<and> (\<forall>n\<in>set (sc_nodes s). node_id n \<noteq> 0)"

text \<open>
  The lines that start a task: a line starts the task \<open>t\<close> when \<^verbatim>\<open>parseFile\<close> takes a
  \<^verbatim>\<open>Tasker.Task.Starting\<close> event with \<^verbatim>\<open>details.task_id = t\<close> from it. \<open>firstStart t\<close> is
  the decoded form of the first such line, and \<open>lineOwner\<close> gives the id and the decoded
  line when the id is moreover truthy.
\<close>

definition startsTask :: "int \<Rightarrow> string \<times> logLine option \<Rightarrow> bool" where
  "startsTask t rl =
     (case rl of (rawLine, parsed) \<Rightarrow>
        rawLine \<noteq> [] \<and>
        (case parsed of
           None \<Rightarrow> False
         | Some l \<Rightarrow>
             includesStr rawLine ''!!!OnEventNotify!!!'' \<and> includesStr (l_message l) ''!!!OnEventNotify!!!''
             \<and> l_msg l = Some ''Tasker.Task.Starting''
             \<and> (case l_details l of None \<Rightarrow> False | Some d \<Rightarrow> d_task_id d = Some t)))"

definition firstStart :: "int \<Rightarrow> (string \<times> logLine option) list \<Rightarrow> logLine option" where
  "firstStart t rls = (case find (startsTask t) rls of None \<Rightarrow> None | Some rl \<Rightarrow> snd rl)"

definition lineOwner :: "string \<times> logLine option \<Rightarrow> (int \<times> logLine) option" where
  "lineOwner rl =
     (case rl of (rawLine, parsed) \<Rightarrow>
        (case parsed of
           None \<Rightarrow> None
         | Some l \<Rightarrow>
             (case l_details l of
                None \<Rightarrow> None
              | Some d \<Rightarrow>
                  (case d_task_id d of
                     None \<Rightarrow> None
                   | Some t \<Rightarrow> if t \<noteq> 0 \<and> startsTask t rl then Some (t, l) else None))))"

text \<open>What holds of the owner maps and of the events collected so far throughout the
  loop of \<^verbatim>\<open>parseFile\<close>: both maps have the same keys, in the same order and without
  repetition, and each key is the non-zero task id of a collected
  \<^verbatim>\<open>Tasker.Task.Starting\<close> event.\<close>

definition owners_ok :: "event list \<times> parser \<Rightarrow> bool" where
  "owners_ok acc =
     (case acc of (evs, p) \<Rightarrow>
        distinct (map fst (taskProcessMap p))
        \<and> map fst (taskThreadMap p) = map fst (taskProcessMap p)
        \<and> list_all (\<lambda>t. t \<noteq> 0 \<and> list_ex (\<lambda>ev. e_message ev = ''Tasker.Task.Starting''
                                              \<and> d_task_id (e_details ev) = Some t) evs)
             (map fst (taskProcessMap p)))"

text \<open>What holds of every record of the map of \<^verbatim>\<open>analyze\<close>: there is one success or
  failure count for each duration, and a duration that is a number lies between 0 and
  3600000, both included.\<close>

definition withinHour :: "int option \<Rightarrow> bool" where
  "withinHour d = (case d of None \<Rightarrow> True | Some x \<Rightarrow> 0 \<le> x \<and> x \<le> 3600000)"

definition stats_ok :: "nodeStats \<Rightarrow> bool" where
  "stats_ok st \<longleftrightarrow>
     length (st_durations st) = st_successCount st + st_failCount st
     \<and> list_all withinHour (st_durations st)"

section \<open>The task key determines uuid and task id\<close>

lemma of_char_digit: "d < 10 \<Longrightarrow> (of_char (digit d) :: nat) = 48 + d"
proof -
  assume "d < 10"
  then have "d = 0 \<or> d = 1 \<or> d = 2 \<or> d = 3 \<or> d = 4 \<or> d = 5 \<or> d = 6 \<or> d = 7 \<or> d = 8 \<or> d = 9"
    by arith
  then show ?thesis
    by (elim disjE) (simp_all add: digit_def)
qed

lemma digit_inj: "a < 10 \<Longrightarrow> b < 10 \<Longrightarrow> digit a = digit b \<Longrightarrow> a = b"
proof -
  assume a: "a < 10" and b: "b < 10" and e: "digit a = digit b"
  from e have "(of_char (digit a) :: nat) = of_char (digit b)" by (rule arg_cong)
  then have "48 + a = 48 + b" by (simp only: of_char_digit [OF a] of_char_digit [OF b])
  then show ?thesis by (rule add_left_imp_eq)
qed

lemma digit_not_sep: "d < 10 \<Longrightarrow> digit d \<noteq> CHR ''_'' \<and> digit d \<noteq> CHR ''-''"
proof -
  assume d: "d < 10"
  have u: "(of_char (CHR ''_'') :: nat) = 95" and m: "(of_char (CHR ''-'') :: nat) = 45"
    by simp_all
  have "digit d \<noteq> CHR ''_''"
  proof
    assume "digit d = CHR ''_''"
    then have "(of_char (digit d) :: nat) = of_char (CHR ''_'')" by (rule arg_cong)
    then have "48 + d = 95" by (simp only: of_char_digit [OF d] u)
    with d show False by arith
  qed
  moreover have "digit d \<noteq> CHR ''-''"
  proof
    assume "digit d = CHR ''-''"
    then have "(of_char (digit d) :: nat) = of_char (CHR ''-'')" by (rule arg_cong)
    then have "48 + d = 45" by (simp only: of_char_digit [OF d] m)
    then show False by arith
  qed
  ultimately show ?thesis by simp
qed

lemma showNat_nonempty: "showNat n \<noteq> []"
  by (subst showNat.simps) simp

lemma showNat_chars: "c \<in> set (showNat n) \<Longrightarrow> c \<noteq> CHR ''_'' \<and> c \<noteq> CHR ''-''"
proof (induction n rule: showNat.induct)
  case (1 n)
  show ?case
  proof (cases "n < 10")
    case True
    with "1.prems" have "c = digit n" by (subst (asm) showNat.simps) simp
    with digit_not_sep [OF True] show ?thesis by simp
  next
    case False
    with "1.prems" have "c \<in> set (showNat (n div 10)) \<or> c = digit (n mod 10)"
      by (subst (asm) showNat.simps) auto
    then show ?thesis
    proof
      assume "c \<in> set (showNat (n div 10))"
      with "1.IH" [OF False] show ?thesis .
    next
      assume "c = digit (n mod 10)"
      then show ?thesis using digit_not_sep [of "n mod 10"] by simp
    qed
  qed
qed

lemma showNat_inj: "showNat a = showNat b \<Longrightarrow> a = b"
proof (induction a arbitrary: b rule: showNat.induct)
  case (1 a)
  show ?case
  proof (cases "a < 10")
    case a: True
    show ?thesis
    proof (cases "b < 10")
      case True
      with a "1.prems" show ?thesis
        by (subst (asm) showNat.simps, subst (asm) (2) showNat.simps) (simp add: digit_inj)
    next
      case False
      have "showNat b = showNat (b div 10) @ [digit (b mod 10)]"
        using False by (subst showNat.simps) simp
      moreover have "showNat a = [digit a]" using a by (subst showNat.simps) simp
      ultimately show ?thesis using "1.prems" showNat_nonempty [of "b div 10"] by simp
    qed
  next
    case a: False
    have ea: "showNat a = showNat (a div 10) @ [digit (a mod 10)]"
      using a by (subst showNat.simps) simp
    show ?thesis
    proof (cases "b < 10")
      case True
      then have "showNat b = [digit b]" by (subst showNat.simps) simp
      with ea show ?thesis using "1.prems" showNat_nonempty [of "a div 10"] by simp
    next
      case False
      then have eb: "showNat b = showNat (b div 10) @ [digit (b mod 10)]"
        by (subst showNat.simps) simp
      from ea eb "1.prems" have h: "showNat (a div 10) = showNat (b div 10)"
        and d: "digit (a mod 10) = digit (b mod 10)" by simp_all
      from "1.IH" [OF a h] have q: "a div 10 = b div 10" .
      from d have r: "a mod 10 = b mod 10" by (simp add: digit_inj)
      from q r show ?thesis by (metis div_mult_mod_eq)
    qed
  qed
qed

lemma showInt_chars: "CHR ''_'' \<notin> set (showInt i)"
  using showNat_chars by (auto simp: showInt_def)

lemma showInt_inj: "showInt i = showInt j \<Longrightarrow> i = j"
proof -
  assume e: "showInt i = showInt j"
  have hdn: "\<And>n. hd (showNat n) \<noteq> CHR ''-''"
    using showNat_chars showNat_nonempty by (metis hd_in_set)
  show ?thesis
  proof (cases "i < 0")
    case i: True
    show ?thesis
    proof (cases "j < 0")
      case True
      with i e have "nat (- i) = nat (- j)" by (simp add: showInt_def showNat_inj)
      with i True show ?thesis by simp
    next
      case False
      with i e have "CHR ''-'' # showNat (nat (- i)) = showNat (nat j)" by (simp add: showInt_def)
      then have "hd (showNat (nat j)) = CHR ''-''" by (metis list.sel(1))
      with hdn show ?thesis by blast
    qed
  next
    case i: False
    show ?thesis
    proof (cases "j < 0")
      case True
      with i e have "showNat (nat i) = CHR ''-'' # showNat (nat (- j))" by (simp add: showInt_def)
      then have "hd (showNat (nat i)) = CHR ''-''" by (metis list.sel(1))
      with hdn show ?thesis by blast
    next
      case False
      with i e have "nat i = nat j" by (simp add: showInt_def showNat_inj)
      with i False show ?thesis by simp
    qed
  qed
qed

lemma split_at_last_sep:
  assumes "u1 @ c # d1 = u2 @ c # d2" "c \<notin> set d1" "c \<notin> set d2"
  shows "u1 = u2 \<and> d1 = d2"
proof -
  from assms(1) have "rev (u1 @ c # d1) = rev (u2 @ c # d2)" by simp
  then have e: "rev d1 @ c # rev u1 = rev d2 @ c # rev u2" by simp
  have "takeWhile (\<lambda>x. x \<noteq> c) (rev d1 @ c # rev u1) = rev d1"
    using assms(2) by (auto simp: takeWhile_tail)
  moreover have "takeWhile (\<lambda>x. x \<noteq> c) (rev d2 @ c # rev u2) = rev d2"
    using assms(3) by (auto simp: takeWhile_tail)
  ultimately have "rev d1 = rev d2" using e by simp
  then have "d1 = d2" by simp
  with assms(1) show ?thesis by simp
qed

lemma taskKey_inj:
  "taskKey u1 (Some i1) = taskKey u2 (Some i2) \<Longrightarrow> u1 = u2 \<and> i1 = i2"
proof -
  assume "taskKey u1 (Some i1) = taskKey u2 (Some i2)"
  then have "u1 @ CHR ''_'' # showInt i1 = u2 @ CHR ''_'' # showInt i2"
    by (simp add: taskKey_def toString_def)
  then have "u1 = u2 \<and> showInt i1 = showInt i2"
    by (rule split_at_last_sep) (rule showInt_chars)+
  then show ?thesis using showInt_inj by blast
qed

lemma taskKey_eq_iff:
  "taskKey u1 (Some i1) = taskKey u2 (Some i2) \<longleftrightarrow> u1 = u2 \<and> i1 = i2"
  using taskKey_inj by blast

section \<open>Task discovery keeps its invariant\<close>

lemma findIndex_Some:
  "findIndex P xs = Some j \<Longrightarrow> j < length xs \<and> P (xs ! j) \<and> (\<forall>i<j. \<not> P (xs ! i))"
proof (induction xs arbitrary: j)
  case Nil
  then show ?case by simp
next
  case (Cons x xs)
  show ?case
  proof (cases "P x")
    case True
    with Cons.prems show ?thesis by simp
  next
    case False
    with Cons.prems obtain k where k: "findIndex P xs = Some k" and j: "j = Suc k" by auto
    from Cons.IH [OF k] have "k < length xs" "P (xs ! k)" "\<forall>i<k. \<not> P (xs ! i)" by simp_all
    with False j show ?thesis by (auto simp: less_Suc_eq_0_disj)
  qed
qed

lemma keyOf_closeTask: "keyOf (closeTask getTime i ev t) = keyOf t"
  by (simp add: keyOf_def closeTask_def Let_def)

lemma task_id_closeTask: "task_id (closeTask getTime i ev t) = task_id t"
  by (simp add: closeTask_def Let_def)

lemma map_update_same:
  "j < length xs \<Longrightarrow> f y = f (xs ! j) \<Longrightarrow> map f (xs[j := y]) = map f xs"
  by (simp add: map_update list_update_same_conv)

lemma keyOf_newTask: "keyOf (newTask i ev n u) = taskKey u (Some n)"
  by (simp add: keyOf_def newTask_def intern_def)

lemma task_id_newTask: "task_id (newTask i ev n u) = n"
  by (simp add: newTask_def)

lemma onTaskStarting_cases:
  "onTaskStarting i ev st = st
   \<or> (\<exists>n. d_task_id (e_details ev) = Some n \<and> n \<noteq> 0
        \<and> taskMap st (taskKey (orEmpty (d_uuid (e_details ev))) (Some n)) = None
        \<and> onTaskStarting i ev st =
            st \<lparr> tasks := tasks st @ [newTask i ev n (orEmpty (d_uuid (e_details ev)))],
                 taskMap := (taskMap st)(taskKey (orEmpty (d_uuid (e_details ev))) (Some n)
                                          \<mapsto> length (tasks st)) \<rparr>)"
proof (cases "d_task_id (e_details ev)")
  case None
  then show ?thesis by (simp add: onTaskStarting_def Let_def truthyNum_def)
next
  case (Some n)
  then show ?thesis by (simp add: onTaskStarting_def Let_def truthyNum_def)
qed

lemma inv_onTaskStarting: "discovery_inv st \<Longrightarrow> discovery_inv (onTaskStarting i ev st)"
proof -
  assume a: "discovery_inv st"
  from onTaskStarting_cases [of i ev st] show ?thesis
  proof (elim disjE exE conjE)
    assume "onTaskStarting i ev st = st"
    with a show ?thesis by simp
  next
    fix n
    let ?k = "taskKey (orEmpty (d_uuid (e_details ev))) (Some n)"
    assume n: "n \<noteq> 0" and free: "taskMap st ?k = None"
      and eq: "onTaskStarting i ev st =
            st \<lparr> tasks := tasks st @ [newTask i ev n (orEmpty (d_uuid (e_details ev)))],
                 taskMap := (taskMap st)(?k \<mapsto> length (tasks st)) \<rparr>"
    from a have d: "dom (taskMap st) = keyOf ` set (tasks st)"
      and di: "distinct (map keyOf (tasks st))"
      and nz: "\<forall>t\<in>set (tasks st). task_id t \<noteq> 0"
      by (simp_all add: discovery_inv_def)
    from free have "?k \<notin> dom (taskMap st)" by (simp add: domIff)
    with d have fresh: "?k \<notin> keyOf ` set (tasks st)" by simp
    show ?thesis
      unfolding eq discovery_inv_def
      using d di nz fresh n
      by (simp add: keyOf_newTask task_id_newTask)
  qed
qed

lemma onTaskFinished_cases:
  "onTaskFinished getTime i ev st = st
   \<or> (\<exists>j < length (tasks st). onTaskFinished getTime i ev st =
         st \<lparr> tasks := (tasks st) [j := closeTask getTime i ev (tasks st ! j)] \<rparr>)"
proof -
  let ?m = "(if truthyStr (d_uuid (e_details ev)) \<and> trim (the (d_uuid (e_details ev))) \<noteq> []
             then findIndex (\<lambda>t. uuid t = the (d_uuid (e_details ev)) \<and> isOpen t) (tasks st)
             else findIndex (\<lambda>t. Some (task_id t) = d_task_id (e_details ev) \<and> isOpen t) (tasks st))"
  show ?thesis
  proof (cases ?m)
    case None
    then have "onTaskFinished getTime i ev st = st" by (simp add: onTaskFinished_def Let_def)
    then show ?thesis by simp
  next
    case (Some j)
    then have "j < length (tasks st)" by (auto dest: findIndex_Some split: if_splits)
    moreover from Some have "onTaskFinished getTime i ev st =
         st \<lparr> tasks := (tasks st) [j := closeTask getTime i ev (tasks st ! j)] \<rparr>"
      by (simp add: onTaskFinished_def Let_def)
    ultimately show ?thesis by blast
  qed
qed

lemma onTaskFinished_keys:
  "map keyOf (tasks (onTaskFinished getTime i ev st)) = map keyOf (tasks st)"
  "map task_id (tasks (onTaskFinished getTime i ev st)) = map task_id (tasks st)"
  "taskMap (onTaskFinished getTime i ev st) = taskMap st"
proof -
  show "map keyOf (tasks (onTaskFinished getTime i ev st)) = map keyOf (tasks st)"
    using onTaskFinished_cases [of getTime i ev st]
    by (elim disjE exE conjE) (simp_all add: map_update_same keyOf_closeTask)
  show "map task_id (tasks (onTaskFinished getTime i ev st)) = map task_id (tasks st)"
    using onTaskFinished_cases [of getTime i ev st]
    by (elim disjE exE conjE) (simp_all add: map_update_same task_id_closeTask)
  show "taskMap (onTaskFinished getTime i ev st) = taskMap st"
    using onTaskFinished_cases [of getTime i ev st]
    by (elim disjE exE conjE) simp_all
qed

lemma inv_onTaskFinished: "discovery_inv st \<Longrightarrow> discovery_inv (onTaskFinished getTime i ev st)"
proof -
  assume a: "discovery_inv st"
  have s: "keyOf ` set (tasks (onTaskFinished getTime i ev st)) = keyOf ` set (tasks st)"
    using onTaskFinished_keys(1) [of getTime i ev st] by (metis set_map)
  have t: "task_id ` set (tasks (onTaskFinished getTime i ev st)) = task_id ` set (tasks st)"
    using onTaskFinished_keys(2) [of getTime i ev st] by (metis set_map)
  from a have "0 \<notin> task_id ` set (tasks st)" by (auto simp: discovery_inv_def)
  with t have "0 \<notin> task_id ` set (tasks (onTaskFinished getTime i ev st))" by simp
  then have "\<forall>t\<in>set (tasks (onTaskFinished getTime i ev st)). task_id t \<noteq> 0" by force
  with a s show ?thesis
    by (simp add: discovery_inv_def onTaskFinished_keys)
qed

lemma inv_discoverStep: "discovery_inv st \<Longrightarrow> discovery_inv (discoverStep getTime i ev st)"
  by (simp add: discoverStep_def inv_onTaskStarting inv_onTaskFinished)

lemma inv_discover: "discovery_inv st \<Longrightarrow> discovery_inv (discover getTime i evs st)"
  by (induction evs arbitrary: i st) (simp_all add: inv_discoverStep)

lemma inv_init: "discovery_inv \<lparr> tasks = [], taskMap = Map.empty \<rparr>"
  by (simp add: discovery_inv_def)

lemma discover_append:
  "discover getTime i (xs @ ys) st = discover getTime (i + length xs) ys (discover getTime i xs st)"
  by (induction xs arbitrary: i st) simp_all

section \<open>The tasks that getTasks builds\<close>

lemma keyOf_attachNodes: "keyOf (attachNodes getTime evs t) = keyOf t"
  by (simp add: keyOf_def attachNodes_def Let_def)

lemma attachNodes_fields:
  "task_id (attachNodes getTime evs t) = task_id t"
  "uuid (attachNodes getTime evs t) = uuid t"
  "startEventIndex (attachNodes getTime evs t) = startEventIndex t"
  "nodes (attachNodes getTime evs t) = getTaskNodes evs t"
  by (simp_all add: attachNodes_def Let_def)

lemma attachNodes_more:
  "entry (attachNodes getTime evs t) = entry t"
  "status (attachNodes getTime evs t) = status t"
  "endEventIndex (attachNodes getTime evs t) = endEventIndex t"
  "end_time (attachNodes getTime evs t) = end_time t"
  by (simp_all add: attachNodes_def Let_def)

lemma discover_inv_result:
  "discovery_inv (discover getTime 0 evs \<lparr> tasks = [], taskMap = Map.empty \<rparr>)"
  by (rule inv_discover) (rule inv_init)

lemma distinct_keys_buildTasks: "distinct (map keyOf (buildTasks getTime evs))"
proof -
  have "map keyOf (buildTasks getTime evs)
        = map keyOf (tasks (discover getTime 0 evs \<lparr> tasks = [], taskMap = Map.empty \<rparr>))"
    by (simp add: buildTasks_def keyOf_attachNodes)
  with discover_inv_result [of getTime evs] show ?thesis by (simp add: discovery_inv_def)
qed

lemma distinct_ids_of_keys:
  "distinct (map keyOf ts) \<Longrightarrow> distinct (map (\<lambda>t. (uuid t, task_id t)) ts)"
proof -
  assume d: "distinct (map keyOf ts)"
  have "map keyOf ts = map (\<lambda>q. taskKey (fst q) (Some (snd q))) (map (\<lambda>t. (uuid t, task_id t)) ts)"
    by (simp add: keyOf_def)
  with d show ?thesis by (simp only: distinct_map)
qed

lemma discover_snoc:
  "discover getTime 0 (pre @ [ev]) st = discoverStep getTime (length pre) ev (discover getTime 0 pre st)"
  by (simp add: discover_append)

lemma closeTask_fields:
  "startEventIndex (closeTask getTime i ev t) = startEventIndex t"
  "uuid (closeTask getTime i ev t) = uuid t"
  "entry (closeTask getTime i ev t) = entry t"
  by (simp_all add: closeTask_def Let_def)

lemma startedAt_closeTask: "startedAt evs (closeTask getTime i ev t) = startedAt evs t"
  by (simp add: startedAt_def closeTask_fields task_id_closeTask split: option.splits)

lemma startedAt_newTask:
  "i < length evs \<Longrightarrow> e_message (evs ! i) = ''Tasker.Task.Starting'' \<Longrightarrow>
   d_task_id (e_details (evs ! i)) = Some n \<Longrightarrow> startedAt evs (newTask i ev n u)"
  by (simp add: startedAt_def newTask_def)

lemma set_update_cases: "x \<in> set (xs[j := y]) \<Longrightarrow> x = y \<or> x \<in> set xs"
  by (metis insert_iff set_update_subset_insert subsetD)

lemma startedAt_step:
  assumes "\<forall>t\<in>set (tasks st). startedAt evs t" "i < length evs"
  shows "\<forall>t\<in>set (tasks (discoverStep getTime i (evs ! i) st)). startedAt evs t"
proof (cases "e_message (evs ! i) = ''Tasker.Task.Starting''")
  case True
  from onTaskStarting_cases [of i "evs ! i" st] show ?thesis
  proof (elim disjE exE conjE)
    assume "onTaskStarting i (evs ! i) st = st"
    with True assms(1) show ?thesis by (simp add: discoverStep_def)
  next
    fix n
    assume n: "d_task_id (e_details (evs ! i)) = Some n"
      and eq: "onTaskStarting i (evs ! i) st =
            st \<lparr> tasks := tasks st @ [newTask i (evs ! i) n (orEmpty (d_uuid (e_details (evs ! i))))],
                 taskMap := (taskMap st)(taskKey (orEmpty (d_uuid (e_details (evs ! i)))) (Some n)
                                          \<mapsto> length (tasks st)) \<rparr>"
    have "startedAt evs (newTask i (evs ! i) n (orEmpty (d_uuid (e_details (evs ! i)))))"
      using assms(2) True n by (rule startedAt_newTask)
    with assms(1) True show ?thesis by (simp add: discoverStep_def eq)
  qed
next
  case False
  show ?thesis
  proof (cases "e_message (evs ! i) = ''Tasker.Task.Succeeded'' \<or> e_message (evs ! i) = ''Tasker.Task.Failed''")
    case f: False
    with False assms(1) show ?thesis by (simp add: discoverStep_def)
  next
    case t: True
    from onTaskFinished_cases [of getTime i "evs ! i" st] show ?thesis
    proof (elim disjE exE conjE)
      assume "onTaskFinished getTime i (evs ! i) st = st"
      with False t assms(1) show ?thesis by (simp add: discoverStep_def)
    next
      fix j
      assume j: "j < length (tasks st)"
        and eq: "onTaskFinished getTime i (evs ! i) st =
           st \<lparr> tasks := (tasks st) [j := closeTask getTime i (evs ! i) (tasks st ! j)] \<rparr>"
      from j assms(1) have "startedAt evs (tasks st ! j)" by simp
      then have c: "startedAt evs (closeTask getTime i (evs ! i) (tasks st ! j))"
        by (simp add: startedAt_closeTask)
      have "\<forall>t\<in>set ((tasks st) [j := closeTask getTime i (evs ! i) (tasks st ! j)]). startedAt evs t"
        using c assms(1) by (blast dest: set_update_cases)
      with False t show ?thesis by (simp add: discoverStep_def eq)
    qed
  qed
qed

lemma startedAt_discover:
  assumes "\<forall>t\<in>set (tasks st). startedAt (done @ evs) t" "length done = i"
  shows "\<forall>t\<in>set (tasks (discover getTime i evs st)). startedAt (done @ evs) t"
  using assms
proof (induction evs arbitrary: i st "done")
  case Nil
  then show ?case by simp
next
  case (Cons ev evs)
  have i: "i < length (done @ ev # evs)" using Cons.prems(2) by simp
  have e: "(done @ ev # evs) ! i = ev" using Cons.prems(2) by (simp add: nth_append)
  from startedAt_step [OF Cons.prems(1) i, of getTime]
  have s: "\<forall>t\<in>set (tasks (discoverStep getTime i ev st)). startedAt ((done @ [ev]) @ evs) t"
    by (simp add: e)
  have "length (done @ [ev]) = Suc i" using Cons.prems(2) by simp
  from Cons.IH [OF s this] show ?case by simp
qed

lemma startedAt_buildTasks: "\<forall>t\<in>set (buildTasks getTime evs). startedAt evs t"
proof -
  have "\<forall>t\<in>set (tasks (discover getTime 0 evs \<lparr> tasks = [], taskMap = Map.empty \<rparr>)). startedAt ([] @ evs) t"
    by (rule startedAt_discover) simp_all
  then show ?thesis
    by (auto simp: buildTasks_def startedAt_def attachNodes_fields split: option.splits)
qed

lemma task_id_buildTasks: "\<forall>t\<in>set (buildTasks getTime evs). task_id t \<noteq> 0"
  using discover_inv_result [of getTime evs]
  by (auto simp: buildTasks_def discovery_inv_def attachNodes_fields)

section \<open>The nodes that getTaskNodes builds\<close>

lemma scan_other_steps:
  "sc_nodes (onNextList tid ev s) = sc_nodes s" "nodeIdSet (onNextList tid ev s) = nodeIdSet s"
  "sc_nodes (onRecognitionNode tid ev s) = sc_nodes s" "nodeIdSet (onRecognitionNode tid ev s) = nodeIdSet s"
  "sc_nodes (onActionNode tid ev s) = sc_nodes s" "nodeIdSet (onActionNode tid ev s) = nodeIdSet s"
  "sc_nodes (onRecognition tid ev s) = sc_nodes s" "nodeIdSet (onRecognition tid ev s) = nodeIdSet s"
  "sc_nodes (onAction tid ev s) = sc_nodes s" "nodeIdSet (onAction tid ev s) = nodeIdSet s"
  by (simp_all add: onNextList_def onRecognitionNode_def onActionNode_def onRecognition_def
        onAction_def Let_def)

lemma node_id_mkNode: "node_id (mkNode tid ev s k) = k"
  by (simp add: mkNode_def Let_def)

text \<open>What \<open>onPipelineNode\<close> does to the nodes and to the set of their ids.\<close>

lemma onPipelineNode_nodes:
  "(sc_nodes (onPipelineNode tid ev s) = sc_nodes s \<and> nodeIdSet (onPipelineNode tid ev s) = nodeIdSet s)
   \<or> (\<exists>k nd. (e_message ev = ''Node.PipelineNode.Succeeded'' \<or> e_message ev = ''Node.PipelineNode.Failed'')
          \<and> d_task_id (e_details ev) = Some tid \<and> d_node_id (e_details ev) = Some k
          \<and> k \<noteq> 0 \<and> k \<notin> nodeIdSet s \<and> node_id nd = k
          \<and> sc_nodes (onPipelineNode tid ev s) = sc_nodes s @ [nd]
          \<and> nodeIdSet (onPipelineNode tid ev s) = insert k (nodeIdSet s))"
proof (cases "d_node_id (e_details ev)")
  case None
  then show ?thesis by (simp add: onPipelineNode_def Let_def truthyNum_def)
next
  case (Some k)
  then show ?thesis by (simp add: onPipelineNode_def Let_def truthyNum_def node_id_mkNode)
qed

lemma scanStep_nodes:
  "(sc_nodes (scanStep tid ev s) = sc_nodes s \<and> nodeIdSet (scanStep tid ev s) = nodeIdSet s)
   \<or> (\<exists>k nd. (e_message ev = ''Node.PipelineNode.Succeeded'' \<or> e_message ev = ''Node.PipelineNode.Failed'')
          \<and> d_task_id (e_details ev) = Some tid \<and> d_node_id (e_details ev) = Some k
          \<and> k \<noteq> 0 \<and> k \<notin> nodeIdSet s \<and> node_id nd = k
          \<and> sc_nodes (scanStep tid ev s) = sc_nodes s @ [nd]
          \<and> nodeIdSet (scanStep tid ev s) = insert k (nodeIdSet s))"
proof -
  let ?s = "onAction tid ev (onRecognition tid ev (onActionNode tid ev (onRecognitionNode tid ev (onNextList tid ev s))))"
  have n: "sc_nodes ?s = sc_nodes s" and i: "nodeIdSet ?s = nodeIdSet s"
    by (simp_all only: scan_other_steps)
  from onPipelineNode_nodes [of tid ev ?s] show ?thesis
    unfolding scanStep_def n i .
qed

lemma inv_scanStep: "scan_inv s \<Longrightarrow> scan_inv (scanStep tid ev s)"
  using scanStep_nodes [of tid ev s]
  by (elim disjE exE conjE) (simp_all add: scan_inv_def)

lemma inv_scanEvents: "scan_inv s \<Longrightarrow> scan_inv (scanEvents tid evs s)"
  by (induction evs arbitrary: s) (simp_all add: inv_scanStep)

lemma inv_initScan: "scan_inv initScan"
  by (simp add: scan_inv_def initScan_def)

lemma scanEvents_append:
  "scanEvents tid (xs @ ys) s = scanEvents tid ys (scanEvents tid xs s)"
  by (induction xs arbitrary: s) simp_all

lemma scan_inv_getTaskNodes:
  "distinct (map node_id (getTaskNodes evs t)) \<and> (\<forall>n\<in>set (getTaskNodes evs t). node_id n \<noteq> 0)"
proof (cases "startEventIndex t")
  case None
  then show ?thesis by (simp add: getTaskNodes_def)
next
  case (Some a)
  let ?evs = "slice evs a (case endEventIndex t of None \<Rightarrow> length evs | Some taskEndIndex \<Rightarrow> taskEndIndex + 1)"
  have "scan_inv (scanEvents (task_id t) ?evs initScan)"
    by (rule inv_scanEvents) (rule inv_initScan)
  with Some show ?thesis by (simp add: getTaskNodes_def Let_def scan_inv_def)
qed

lemma nodes_buildTasks:
  "t \<in> set (buildTasks getTime evs) \<Longrightarrow>
   distinct (map node_id (nodes t)) \<and> (\<forall>n\<in>set (nodes t). node_id n \<noteq> 0)"
  using scan_inv_getTaskNodes by (auto simp: buildTasks_def attachNodes_fields)

text \<open>A completion event whose node id is missing, 0 or already in the set adds no node.\<close>

lemma scanStep_no_node:
  assumes "d_node_id (e_details ev) = None \<or> d_node_id (e_details ev) = Some 0
           \<or> (\<exists>k. d_node_id (e_details ev) = Some k \<and> k \<in> nodeIdSet s)"
  shows "sc_nodes (scanStep tid ev s) = sc_nodes s"
  using scanStep_nodes [of tid ev s] assms by auto

lemma key_names_task:
  assumes "discovery_inv st"
  shows "taskMap st (taskKey u (Some i)) \<noteq> None \<longleftrightarrow> (\<exists>t\<in>set (tasks st). uuid t = u \<and> task_id t = i)"
proof -
  have "taskMap st (taskKey u (Some i)) \<noteq> None \<longleftrightarrow> taskKey u (Some i) \<in> keyOf ` set (tasks st)"
    using assms by (auto simp: discovery_inv_def domIff)
  also have "\<dots> \<longleftrightarrow> (\<exists>t\<in>set (tasks st). uuid t = u \<and> task_id t = i)"
    by (auto simp: keyOf_def taskKey_eq_iff image_iff)
  finally show ?thesis .
qed

section \<open>The owner maps keep the first owner\<close>

text \<open>The effect of one line on the owner maps and on the collected events.\<close>

lemma ingestLine_owner:
  "taskProcessMap (snd (ingestLine rl (evs, p)))
     = (case lineOwner rl of
          None \<Rightarrow> taskProcessMap p
        | Some (t, l) \<Rightarrow> if map_of (taskProcessMap p) t = None
                         then taskProcessMap p @ [(t, l_processId l)] else taskProcessMap p)"
  "taskThreadMap (snd (ingestLine rl (evs, p)))
     = (case lineOwner rl of
          None \<Rightarrow> taskThreadMap p
        | Some (t, l) \<Rightarrow> if map_of (taskProcessMap p) t = None
                         then taskThreadMap p @ [(t, l_threadId l)] else taskThreadMap p)"
  by (auto simp: ingestLine_def lineOwner_def startsTask_def parseEventNotification_def
        recordOwner_def truthyNum_def truthyStr_def Let_def
      split: option.splits prod.splits sum.splits if_splits)

lemma ingestLine_events:
  "lineOwner rl = Some (t, l) \<Longrightarrow>
   \<exists>ev. fst (ingestLine rl (evs, p)) = evs @ [ev] \<and> e_message ev = ''Tasker.Task.Starting''
        \<and> d_task_id (e_details ev) = Some t"
  by (auto simp: ingestLine_def lineOwner_def startsTask_def parseEventNotification_def
        mkEvent_def truthyNum_def truthyStr_def Let_def
      split: option.splits prod.splits sum.splits if_splits)

lemma ingestLine_events_mono: "\<exists>more. fst (ingestLine rl (evs, p)) = evs @ more"
  by (auto simp: ingestLine_def Let_def split: option.splits prod.splits sum.splits if_splits)


lemma lineOwner_Some:
  "lineOwner rl = Some (t, l) \<Longrightarrow> t \<noteq> 0 \<and> startsTask t rl \<and> snd rl = Some l"
  by (auto simp: lineOwner_def split: option.splits prod.splits if_splits)

lemma startsTaskD:
  "startsTask t rl \<Longrightarrow> \<exists>l d. snd rl = Some l \<and> l_details l = Some d \<and> d_task_id d = Some t"
  by (cases rl) (simp add: startsTask_def split: option.splits)

lemma startsTask_lineOwner:
  assumes "t \<noteq> 0" "startsTask t rl"
  shows "\<exists>l. lineOwner rl = Some (t, l)"
proof -
  from startsTaskD [OF assms(2)] obtain l d
    where "snd rl = Some l" "l_details l = Some d" "d_task_id d = Some t" by blast
  with assms have "lineOwner rl = Some (t, l)"
    by (cases rl) (simp add: lineOwner_def)
  then show ?thesis ..
qed

lemma startsTask_unique: "startsTask t rl \<Longrightarrow> startsTask t' rl \<Longrightarrow> t = t'"
  by (drule startsTaskD, drule startsTaskD) auto

lemma ingestLine_process:
  assumes "t \<noteq> 0"
  shows "map_of (taskProcessMap (snd (ingestLine rl (evs, p)))) t
         = (case map_of (taskProcessMap p) t of
              Some x \<Rightarrow> Some x
            | None \<Rightarrow> if startsTask t rl then map_option l_processId (snd rl) else None)"
proof (cases "lineOwner rl")
  case None
  then have "\<not> startsTask t rl" using startsTask_lineOwner [OF assms] by fastforce
  with None show ?thesis by (simp add: ingestLine_owner split: option.splits)
next
  case (Some q)
  then obtain k l where q: "lineOwner rl = Some (k, l)" by (cases q) simp
  from lineOwner_Some [OF q] have k: "k \<noteq> 0" "startsTask k rl" "snd rl = Some l" by simp_all
  have iff: "startsTask t rl \<longleftrightarrow> t = k" using k(2) startsTask_unique by blast
  show ?thesis
    by (simp add: ingestLine_owner q iff k(3) map_add_def split: option.splits)
qed

lemma ingestLine_thread:
  assumes "t \<noteq> 0" "map fst (taskThreadMap p) = map fst (taskProcessMap p)"
  shows "map_of (taskThreadMap (snd (ingestLine rl (evs, p)))) t
         = (case map_of (taskThreadMap p) t of
              Some x \<Rightarrow> Some x
            | None \<Rightarrow> if startsTask t rl then map_option l_threadId (snd rl) else None)"
proof -
  have same: "map_of (taskThreadMap p) k = None \<longleftrightarrow> map_of (taskProcessMap p) k = None" for k
    using assms(2) by (metis map_of_eq_None_iff set_map)
  show ?thesis
  proof (cases "lineOwner rl")
    case None
    then have "\<not> startsTask t rl" using startsTask_lineOwner [OF assms(1)] by fastforce
    with None show ?thesis by (simp add: ingestLine_owner split: option.splits)
  next
    case (Some q)
    then obtain k l where q: "lineOwner rl = Some (k, l)" by (cases q) simp
    from lineOwner_Some [OF q] have k: "k \<noteq> 0" "startsTask k rl" "snd rl = Some l" by simp_all
    have iff: "startsTask t rl \<longleftrightarrow> t = k" using k(2) startsTask_unique by blast
    show ?thesis
    proof (cases "map_of (taskProcessMap p) k = None")
      case True
      then show ?thesis
        by (simp add: ingestLine_owner q iff k(3) map_add_def split: option.splits)
    next
      case False
      with same [of k] have "map_of (taskThreadMap p) k \<noteq> None" by simp
      with False show ?thesis
        by (auto simp add: ingestLine_owner q iff k(3) split: option.splits)
    qed
  qed
qed

lemma owners_ok_step: "owners_ok (evs, p) \<Longrightarrow> owners_ok (ingestLine rl (evs, p))"
proof -
  assume a: "owners_ok (evs, p)"
  obtain evs1 p1 where r: "ingestLine rl (evs, p) = (evs1, p1)" by (cases "ingestLine rl (evs, p)")
  from ingestLine_events_mono [of rl evs p] r obtain more where more: "evs1 = evs @ more" by auto
  from a have d: "distinct (map fst (taskProcessMap p))"
    and e: "map fst (taskThreadMap p) = map fst (taskProcessMap p)"
    and s: "\<forall>t\<in>set (map fst (taskProcessMap p)). t \<noteq> 0
              \<and> (\<exists>ev\<in>set evs. e_message ev = ''Tasker.Task.Starting'' \<and> d_task_id (e_details ev) = Some t)"
    by (simp_all add: owners_ok_def list_all_iff list_ex_iff)
  from s more have s1: "\<forall>t\<in>set (map fst (taskProcessMap p)). t \<noteq> 0
              \<and> (\<exists>ev\<in>set evs1. e_message ev = ''Tasker.Task.Starting'' \<and> d_task_id (e_details ev) = Some t)"
    by auto
  show ?thesis
  proof (cases "lineOwner rl")
    case None
    with r have "taskProcessMap p1 = taskProcessMap p" "taskThreadMap p1 = taskThreadMap p"
      using ingestLine_owner [of rl evs p] by simp_all
    with d e s1 show ?thesis by (simp add: r owners_ok_def list_all_iff list_ex_iff)
  next
    case (Some q)
    then obtain k l where q: "lineOwner rl = Some (k, l)" by (cases q) simp
    from lineOwner_Some [OF q] have k: "k \<noteq> 0" by simp
    from ingestLine_events [OF q, of evs p] r
    have ev: "\<exists>ev\<in>set evs1. e_message ev = ''Tasker.Task.Starting'' \<and> d_task_id (e_details ev) = Some k"
      by auto
    show ?thesis
    proof (cases "map_of (taskProcessMap p) k = None")
      case False
      with q r have "taskProcessMap p1 = taskProcessMap p" "taskThreadMap p1 = taskThreadMap p"
        using ingestLine_owner [of rl evs p] by simp_all
      with d e s1 show ?thesis by (simp add: r owners_ok_def list_all_iff list_ex_iff)
    next
      case True
      with q r have m: "taskProcessMap p1 = taskProcessMap p @ [(k, l_processId l)]"
        "taskThreadMap p1 = taskThreadMap p @ [(k, l_threadId l)]"
        using ingestLine_owner [of rl evs p] by simp_all
      from True have "k \<notin> set (map fst (taskProcessMap p))" by (simp add: map_of_eq_None_iff)
      with d e s1 k ev show ?thesis
        by (simp add: r m owners_ok_def list_all_iff list_ex_iff)
    qed
  qed
qed

lemma owners_ok_ingestLines: "owners_ok acc \<Longrightarrow> owners_ok (ingestLines rls acc)"
proof (induction rls arbitrary: acc)
  case Nil
  then show ?case by simp
next
  case (Cons rl rls)
  obtain evs p where acc: "acc = (evs, p)" by (cases acc)
  with Cons.prems have "owners_ok (ingestLine rl acc)" by (simp add: owners_ok_step)
  then show ?case by (simp add: Cons.IH)
qed

lemma firstStart_Cons:
  "firstStart t (rl # rls) = (if startsTask t rl then snd rl else firstStart t rls)"
  by (simp add: firstStart_def)

lemma ingestLines_owner:
  assumes "owners_ok (evs, p)" "t \<noteq> 0"
  shows "map_of (taskProcessMap (snd (ingestLines rls (evs, p)))) t
         = (case map_of (taskProcessMap p) t of
              Some x \<Rightarrow> Some x | None \<Rightarrow> map_option l_processId (firstStart t rls))
       \<and> map_of (taskThreadMap (snd (ingestLines rls (evs, p)))) t
         = (case map_of (taskThreadMap p) t of
              Some x \<Rightarrow> Some x | None \<Rightarrow> map_option l_threadId (firstStart t rls))"
  using assms(1)
proof (induction rls arbitrary: evs p)
  case Nil
  then show ?case by (simp add: firstStart_def split: option.splits)
next
  case (Cons rl rls)
  obtain evs1 p1 where r: "ingestLine rl (evs, p) = (evs1, p1)" by (cases "ingestLine rl (evs, p)")
  from Cons.prems have ok1: "owners_ok (evs1, p1)" using owners_ok_step [of evs p rl] r by simp
  from Cons.prems have e: "map fst (taskThreadMap p) = map fst (taskProcessMap p)"
    by (simp add: owners_ok_def)
  have p1: "map_of (taskProcessMap p1) t
         = (case map_of (taskProcessMap p) t of
              Some x \<Rightarrow> Some x
            | None \<Rightarrow> if startsTask t rl then map_option l_processId (snd rl) else None)"
    using ingestLine_process [OF assms(2), of rl evs p] r by simp
  have t1: "map_of (taskThreadMap p1) t
         = (case map_of (taskThreadMap p) t of
              Some x \<Rightarrow> Some x
            | None \<Rightarrow> if startsTask t rl then map_option l_threadId (snd rl) else None)"
    using ingestLine_thread [OF assms(2) e, of rl evs] r by simp
  have sn: "startsTask t rl \<Longrightarrow> snd rl \<noteq> None"
    by (auto simp: startsTask_def split: prod.splits option.splits)
  from Cons.IH [OF ok1] show ?case
    using sn by (auto simp add: r p1 t1 firstStart_Cons split: option.splits)
qed

section \<open>Every started task is built\<close>

lemma ids_mono_step:
  "task_id ` set (tasks st) \<subseteq> task_id ` set (tasks (discoverStep getTime i ev st))"
proof -
  have "task_id ` set (tasks st) \<subseteq> task_id ` set (tasks (onTaskStarting i ev st))"
    using onTaskStarting_cases [of i ev st] by (elim disjE exE conjE) auto
  moreover have "task_id ` set (tasks (onTaskFinished getTime i ev st)) = task_id ` set (tasks st)"
    using onTaskFinished_keys(2) [of getTime i ev st] by (metis set_map)
  ultimately show ?thesis by (simp add: discoverStep_def)
qed

lemma ids_mono:
  "task_id ` set (tasks st) \<subseteq> task_id ` set (tasks (discover getTime i evs st))"
proof (induction evs arbitrary: i st)
  case Nil
  then show ?case by simp
next
  case (Cons ev evs)
  from ids_mono_step [of st getTime i ev] Cons.IH [of "discoverStep getTime i ev st" "Suc i"]
  have "task_id ` set (tasks st)
        \<subseteq> task_id ` set (tasks (discover getTime (Suc i) evs (discoverStep getTime i ev st)))"
    by (rule subset_trans)
  then show ?case by simp
qed

lemma starting_creates:
  assumes "discovery_inv st" "e_message ev = ''Tasker.Task.Starting''"
    "d_task_id (e_details ev) = Some t" "t \<noteq> 0"
  shows "t \<in> task_id ` set (tasks (discoverStep getTime i ev st))"
proof (cases "taskMap st (taskKey (orEmpty (d_uuid (e_details ev))) (Some t)) = None")
  case True
  with assms(2-4) show ?thesis
    by (simp add: discoverStep_def onTaskStarting_def truthyNum_def Let_def task_id_newTask)
next
  case False
  with key_names_task [OF assms(1)] have "t \<in> task_id ` set (tasks st)" by force
  with ids_mono_step show ?thesis by blast
qed

lemma discover_creates:
  assumes "ev \<in> set evs" "e_message ev = ''Tasker.Task.Starting''"
    "d_task_id (e_details ev) = Some t" "t \<noteq> 0"
  shows "discovery_inv st \<Longrightarrow> t \<in> task_id ` set (tasks (discover getTime i evs st))"
  using assms(1)
proof (induction evs arbitrary: i st)
  case Nil
  then show ?case by simp
next
  case (Cons e evs)
  show ?case
  proof (cases "ev = e")
    case True
    from starting_creates [OF Cons.prems(1) assms(2-4), of getTime i]
    have "t \<in> task_id ` set (tasks (discoverStep getTime i e st))" by (simp add: True)
    with ids_mono [of "discoverStep getTime i e st" getTime "Suc i" evs] show ?thesis by auto
  next
    case False
    with Cons.prems(2) have "ev \<in> set evs" by simp
    from Cons.IH [OF inv_discoverStep [OF Cons.prems(1)] this] show ?thesis by simp
  qed
qed

lemma started_task_built:
  assumes "ev \<in> set evs" "e_message ev = ''Tasker.Task.Starting''"
    "d_task_id (e_details ev) = Some t" "t \<noteq> 0"
  shows "\<exists>x\<in>set (buildTasks getTime evs). task_id x = t"
proof -
  from discover_creates [OF assms inv_init, of getTime 0]
  obtain y where "y \<in> set (tasks (discover getTime 0 evs \<lparr> tasks = [], taskMap = Map.empty \<rparr>))"
    "task_id y = t" by auto
  then have "attachNodes getTime evs y \<in> set (buildTasks getTime evs)"
    "task_id (attachNodes getTime evs y) = t"
    by (simp_all add: buildTasks_def attachNodes_fields)
  then show ?thesis by blast
qed

lemma parseFile_maps:
  "taskProcessMap (parseFile rls p)
     = taskProcessMap (snd (ingestLines rls ([], p \<lparr> processIds := {}, threadIds := {},
                                                     taskProcessMap := [], taskThreadMap := [] \<rparr>)))"
  "taskThreadMap (parseFile rls p)
     = taskThreadMap (snd (ingestLines rls ([], p \<lparr> processIds := {}, threadIds := {},
                                                     taskProcessMap := [], taskThreadMap := [] \<rparr>)))"
  "events (parseFile rls p)
     = fst (ingestLines rls ([], p \<lparr> processIds := {}, threadIds := {},
                                        taskProcessMap := [], taskThreadMap := [] \<rparr>))"
  by (simp_all add: parseFile_def split: prod.splits)

lemma owners_ok_init:
  "owners_ok ([], p \<lparr> processIds := {}, threadIds := {}, taskProcessMap := [], taskThreadMap := [] \<rparr>)"
  by (simp add: owners_ok_def)

lemma owners_ok_parseFile:
  "owners_ok (events (parseFile rls p), parseFile rls p)"
proof -
  let ?r = "ingestLines rls ([], p \<lparr> processIds := {}, threadIds := {},
                                        taskProcessMap := [], taskThreadMap := [] \<rparr>)"
  have "owners_ok ?r" by (rule owners_ok_ingestLines) (rule owners_ok_init)
  then show ?thesis
    by (simp add: owners_ok_def parseFile_def split: prod.splits)
qed

lemma find_app: "find P (xs @ ys) = (case find P xs of None \<Rightarrow> find P ys | Some x \<Rightarrow> Some x)"
  by (induction xs) simp_all

lemma owner_of_value:
  assumes "distinct (map fst m)" "v \<in> set (map snd m)"
  shows "\<exists>k\<in>set (map fst m). map_of m k = Some v"
proof -
  from assms(2) obtain k where "(k, v) \<in> set m" by auto
  with assms(1) have "map_of m k = Some v" by simp
  moreover from \<open>(k, v) \<in> set m\<close> have "k \<in> set (map fst m)" by force
  ultimately show ?thesis by blast
qed

section \<open>Rounding to a double\<close>

lemma powi_nat: "0 \<le> e \<Longrightarrow> (2::rat) powi e = 2 ^ nat e"
  by (simp add: power_int_def)

lemma powi_neg_nat: "0 \<le> m \<Longrightarrow> (2::rat) powi (- m) = 1 / 2 ^ nat m"
  by (simp add: power_int_def field_simps)

lemma powi_less_exp: "(2::rat) powi a < 2 powi b \<Longrightarrow> a < b"
proof (rule ccontr)
  assume l: "(2::rat) powi a < 2 powi b" and "\<not> a < b"
  then have "b \<le> a" by simp
  then have "(2::rat) powi b \<le> 2 powi a" by (intro power_int_increasing) simp_all
  with l show False by simp
qed

lemma bitlen_pos: "0 < n \<Longrightarrow> 1 \<le> bitlen n"
  using bitlen_bounds [of n] bitlen_nonneg [of n]
  by (cases "bitlen n = 0") auto

lemma expo_bounds:
  assumes "0 < x"
  shows "2 powi expo x \<le> x" "x < 2 powi (expo x + 1)"
proof -
  show "2 powi expo x \<le> x"
  proof (cases "1 \<le> x")
    case True
    let ?n = "\<lfloor>x\<rfloor>"
    from True have n: "0 < ?n" by simp
    from bitlen_pos [OF n] have b: "0 \<le> bitlen ?n - 1" by simp
    from bitlen_bounds [OF n] have "2 ^ nat (bitlen ?n - 1) \<le> ?n" by simp
    then have "(of_int (2 ^ nat (bitlen ?n - 1)) :: rat) \<le> of_int ?n" by (simp only: of_int_le_iff)
    also have "\<dots> \<le> x" by (rule of_int_floor_le)
    finally have "(of_int (2 ^ nat (bitlen ?n - 1)) :: rat) \<le> x" .
    then have "(2::rat) ^ nat (bitlen ?n - 1) \<le> x" by simp
    with True b show ?thesis by (simp add: expo_def powi_nat)
  next
    case False
    let ?k = "\<lceil>1 / x\<rceil> - 1"
    from False assms have y: "1 < 1 / x" by (simp add: field_simps)
    then have "1 < \<lceil>1 / x\<rceil>" by (simp add: less_ceiling_iff)
    then have k: "0 < ?k" by simp
    from bitlen_pos [OF k] have m: "0 \<le> bitlen ?k" by simp
    from bitlen_bounds [OF k] have "?k < 2 ^ nat (bitlen ?k)" by simp
    then have "\<lceil>1 / x\<rceil> \<le> 2 ^ nat (bitlen ?k)" by simp
    then have c: "(of_int \<lceil>1 / x\<rceil> :: rat) \<le> of_int (2 ^ nat (bitlen ?k))" by (simp only: of_int_le_iff)
    have "1 / x \<le> of_int \<lceil>1 / x\<rceil>" by (rule le_of_int_ceiling)
    also note c
    finally have "1 / x \<le> of_int (2 ^ nat (bitlen ?k))" .
    then have "1 / x \<le> 2 ^ nat (bitlen ?k)" by simp
    with assms have "1 / 2 ^ nat (bitlen ?k) \<le> x" by (simp add: field_simps)
    with False m show ?thesis by (simp add: expo_def powi_neg_nat)
  qed
  show "x < 2 powi (expo x + 1)"
  proof (cases "1 \<le> x")
    case True
    let ?n = "\<lfloor>x\<rfloor>"
    from True have n: "0 < ?n" by simp
    from bitlen_pos [OF n] have b: "0 \<le> bitlen ?n" by simp
    from bitlen_bounds [OF n] have "?n + 1 \<le> 2 ^ nat (bitlen ?n)" by simp
    then have c: "(of_int (?n + 1) :: rat) \<le> of_int (2 ^ nat (bitlen ?n))" by (simp only: of_int_le_iff)
    have "x < of_int (?n + 1)" using floor_correct [of x] by simp
    also note c
    finally have "x < of_int (2 ^ nat (bitlen ?n))" .
    then have "x < 2 ^ nat (bitlen ?n)" by simp
    with True b show ?thesis by (simp add: expo_def powi_nat)
  next
    case False
    let ?k = "\<lceil>1 / x\<rceil> - 1"
    from False assms have y: "1 < 1 / x" by (simp add: field_simps)
    then have "1 < \<lceil>1 / x\<rceil>" by (simp add: less_ceiling_iff)
    then have k: "0 < ?k" by simp
    from bitlen_pos [OF k] have m: "0 \<le> bitlen ?k - 1" by simp
    from bitlen_bounds [OF k] have "2 ^ nat (bitlen ?k - 1) \<le> ?k" by simp
    then have "(of_int (2 ^ nat (bitlen ?k - 1)) :: rat) \<le> of_int ?k" by (simp only: of_int_le_iff)
    also have "(of_int ?k :: rat) < 1 / x" using ceiling_correct [of "1 / x"] by simp
    finally have "(of_int (2 ^ nat (bitlen ?k - 1)) :: rat) < 1 / x" .
    then have "2 ^ nat (bitlen ?k - 1) < 1 / x" by simp
    with assms have "x < 1 / 2 ^ nat (bitlen ?k - 1)" by (simp add: field_simps)
    moreover have "- bitlen ?k + 1 = - (bitlen ?k - 1)" by simp
    ultimately show ?thesis using False m by (simp only: expo_def if_False powi_neg_nat)
  qed
qed

lemma expo_le: "0 < x \<Longrightarrow> x < 2 powi (k + 1) \<Longrightarrow> expo x \<le> k"
proof -
  assume x: "0 < x" and l: "x < 2 powi (k + 1)"
  from expo_bounds(1) [OF x] l have "(2::rat) powi expo x < 2 powi (k + 1)" by simp
  then have "expo x < k + 1" by (rule powi_less_exp)
  then show ?thesis by simp
qed

lemma expo_mono: "0 < x \<Longrightarrow> x \<le> y \<Longrightarrow> expo x \<le> expo y"
proof -
  assume x: "0 < x" and l: "x \<le> y"
  then have y: "0 < y" by simp
  from l expo_bounds(2) [OF y] have "x < 2 powi (expo y + 1)" by simp
  with x show ?thesis by (rule expo_le)
qed

lemma rne_floor: "\<lfloor>q\<rfloor> \<le> rne q \<and> rne q \<le> \<lfloor>q\<rfloor> + 1"
  by (simp add: rne_def Let_def)

lemma rne_error: "\<bar>of_int (rne q) - q\<bar> \<le> 1 / 2"
proof -
  define r where "r = q - of_int \<lfloor>q\<rfloor>"
  have r: "0 \<le> r" "r < 1" using floor_correct [of q] by (simp_all add: r_def)
  have q: "q = of_int \<lfloor>q\<rfloor> + r" by (simp add: r_def)
  consider "r < 1 / 2" | "1 / 2 < r" | "r = 1 / 2" by linarith
  then show ?thesis
  proof cases
    case 1
    then have "rne q = \<lfloor>q\<rfloor>" by (simp add: rne_def Let_def r_def)
    with 1 r q show ?thesis by simp
  next
    case 2
    then have "rne q = \<lfloor>q\<rfloor> + 1" by (simp add: rne_def Let_def r_def)
    with 2 r q show ?thesis by simp
  next
    case 3
    then have "rne q = \<lfloor>q\<rfloor> \<or> rne q = \<lfloor>q\<rfloor> + 1" by (simp add: rne_def Let_def r_def)
    with 3 q show ?thesis by auto
  qed
qed

lemma rne_of_int: "rne (of_int n) = n"
  by (simp add: rne_def)

lemma rne_mono: "x \<le> y \<Longrightarrow> rne x \<le> rne y"
proof -
  assume l: "x \<le> y"
  then have f: "\<lfloor>x\<rfloor> \<le> \<lfloor>y\<rfloor>" by (rule floor_mono)
  show ?thesis
  proof (cases "\<lfloor>x\<rfloor> = \<lfloor>y\<rfloor>")
    case True
    with l show ?thesis by (auto simp: rne_def Let_def)
  next
    case False
    with f have "\<lfloor>x\<rfloor> + 1 \<le> \<lfloor>y\<rfloor>" by simp
    with rne_floor [of x] rne_floor [of y] show ?thesis by linarith
  qed
qed


lemma roundDouble_pos:
  assumes "0 < x"
  shows "roundDouble x = of_int (rne (x / 2 powi (expo x - 52))) * 2 powi (expo x - 52)"
  using assms by (simp add: roundDouble_def Let_def)

lemma scaled_range:
  assumes "0 < x"
  shows "2 ^ 52 \<le> x / 2 powi (expo x - 52)" "x / 2 powi (expo x - 52) < 2 ^ 53"
proof -
  have u: "(0::rat) < 2 powi (expo x - 52)" by simp
  have a: "(2::rat) powi expo x = 2 ^ 52 * 2 powi (expo x - 52)"
    by (simp add: power_int_diff)
  have b: "(2::rat) powi (expo x + 1) = 2 ^ 53 * 2 powi (expo x - 52)"
    by (simp add: power_int_diff power_int_add)
  from expo_bounds(1) [OF assms] show "2 ^ 52 \<le> x / 2 powi (expo x - 52)"
    unfolding a using u by (simp add: pos_le_divide_eq)
  from expo_bounds(2) [OF assms] show "x / 2 powi (expo x - 52) < 2 ^ 53"
    unfolding b using u by (simp add: pos_divide_less_eq)
qed

lemma roundDouble_range:
  assumes "0 < x"
  shows "2 powi expo x \<le> roundDouble x" "roundDouble x \<le> 2 powi (expo x + 1)"
proof -
  let ?u = "(2::rat) powi (expo x - 52)"
  have u: "0 < ?u" by simp
  have a: "(2::rat) powi expo x = 2 ^ 52 * ?u" by (simp add: power_int_diff)
  have b: "(2::rat) powi (expo x + 1) = 2 ^ 53 * ?u" by (simp add: power_int_diff power_int_add)
  from scaled_range(1) [OF assms] have "rne (of_int (2 ^ 52)) \<le> rne (x / ?u)"
    by (intro rne_mono) simp
  then have lo: "2 ^ 52 \<le> rne (x / ?u)" by (simp only: rne_of_int)
  from scaled_range(2) [OF assms] have "rne (x / ?u) \<le> rne (of_int (2 ^ 53))"
    by (intro rne_mono) simp
  then have hi: "rne (x / ?u) \<le> 2 ^ 53" by (simp only: rne_of_int)
  from lo have "(of_int (2 ^ 52) :: rat) \<le> of_int (rne (x / ?u))" by (simp only: of_int_le_iff)
  then have "(of_int (2 ^ 52) :: rat) * ?u \<le> of_int (rne (x / ?u)) * ?u"
    using u by (simp only: mult_le_cancel_right_pos)
  then show "2 powi expo x \<le> roundDouble x"
    by (simp add: roundDouble_pos [OF assms] a)
  from hi have "(of_int (rne (x / ?u)) :: rat) \<le> of_int (2 ^ 53)" by (simp only: of_int_le_iff)
  then have "(of_int (rne (x / ?u)) :: rat) * ?u \<le> of_int (2 ^ 53) * ?u"
    using u by (simp only: mult_le_cancel_right_pos)
  then show "roundDouble x \<le> 2 powi (expo x + 1)"
    by (simp add: roundDouble_pos [OF assms] b)
qed

lemma roundDouble_nonneg: "0 \<le> x \<Longrightarrow> 0 \<le> roundDouble x"
proof (cases "x = 0")
  case True
  then show ?thesis by (simp add: roundDouble_def)
next
  case False
  assume "0 \<le> x"
  with False have x: "0 < x" by simp
  have "(0::rat) \<le> 2 powi expo x" by simp
  also note roundDouble_range(1) [OF x]
  finally show ?thesis .
qed

lemma roundDouble_mono:
  assumes "0 \<le> x" "x \<le> y"
  shows "roundDouble x \<le> roundDouble y"
proof (cases "x = 0")
  case True
  from assms have "0 \<le> y" by simp
  then have "0 \<le> roundDouble y" by (rule roundDouble_nonneg)
  with True show ?thesis by (simp add: roundDouble_def)
next
  case False
  with assms have x: "0 < x" and y: "0 < y" by simp_all
  from expo_mono [OF x assms(2)] have e: "expo x \<le> expo y" .
  show ?thesis
  proof (cases "expo x = expo y")
    case True
    let ?u = "(2::rat) powi (expo y - 52)"
    have u: "0 < ?u" by simp
    from assms(2) u have "x / ?u \<le> y / ?u" by (rule divide_right_mono [OF _ less_imp_le])
    then have "rne (x / ?u) \<le> rne (y / ?u)" by (rule rne_mono)
    then have "(of_int (rne (x / ?u)) :: rat) \<le> of_int (rne (y / ?u))" by (simp only: of_int_le_iff)
    then have "(of_int (rne (x / ?u)) :: rat) * ?u \<le> of_int (rne (y / ?u)) * ?u"
      using u by (simp only: mult_le_cancel_right_pos)
    then show ?thesis by (simp add: roundDouble_pos [OF x] roundDouble_pos [OF y] True)
  next
    case False
    with e have "expo x + 1 \<le> expo y" by simp
    then have "(2::rat) powi (expo x + 1) \<le> 2 powi expo y" by (intro power_int_increasing) simp_all
    with roundDouble_range(2) [OF x] roundDouble_range(1) [OF y] show ?thesis by linarith
  qed
qed

lemma roundDouble_error:
  assumes "0 < x"
  shows "\<bar>roundDouble x - x\<bar> \<le> 2 powi (expo x - 53)"
proof -
  let ?u = "(2::rat) powi (expo x - 52)"
  have u: "0 < ?u" by simp
  have h: "(2::rat) powi (expo x - 53) = ?u / 2" by (simp add: power_int_diff)
  have "roundDouble x - x = (of_int (rne (x / ?u)) - x / ?u) * ?u"
    using u by (simp add: roundDouble_pos [OF assms] algebra_simps)
  then have "\<bar>roundDouble x - x\<bar> = \<bar>of_int (rne (x / ?u)) - x / ?u\<bar> * ?u"
    using u by (simp add: abs_mult)
  also have "\<dots> \<le> (1 / 2) * ?u"
    using rne_error [of "x / ?u"] u by (simp only: mult_le_cancel_right_pos)
  finally show ?thesis by (simp add: h)
qed

section \<open>The records of the analyzer\<close>

lemma set_insertBy: "set (insertBy cmp x ys) = insert x (set ys)"
  by (induction ys) auto

lemma set_sortBy: "set (sortBy cmp xs) = set xs"
  by (induction xs) (simp_all add: sortBy_def set_insertBy)

lemma ensure_all: "list_all (\<lambda>e. P (snd e)) m \<Longrightarrow> P v \<Longrightarrow> list_all (\<lambda>e. P (snd e)) (ensure k v m)"
  by (simp add: ensure_def)

lemma modify_all:
  "list_all (\<lambda>e. P (snd e)) m \<Longrightarrow> (\<And>x. P x \<Longrightarrow> P (f x)) \<Longrightarrow> list_all (\<lambda>e. P (snd e)) (modify k f m)"
  by (induction m) (auto simp: modify_def)

lemma filter_withinHour: "\<not> (ltNum d 0 \<or> gtNum d 3600000) \<Longrightarrow> withinHour d"
  by (cases d) (simp_all add: withinHour_def ltNum_def gtNum_def)

lemma stats_ok_recordNode: "withinHour d \<Longrightarrow> stats_ok st \<Longrightarrow> stats_ok (recordNode nd d st)"
  by (simp add: stats_ok_def recordNode_def Let_def)

lemma stats_ok_empty: "stats_ok \<lparr> st_durations = [], st_successCount = 0, st_failCount = 0 \<rparr>"
  by (simp add: stats_ok_def)

lemma analyzeNode_ok:
  assumes "list_all (\<lambda>e. stats_ok (snd e)) m"
  shows "list_all (\<lambda>e. stats_ok (snd e)) (analyzeNode getTime t nd nx m)"
proof (cases "nodeDuration getTime t nd nx")
  case None
  with assms show ?thesis by (simp add: analyzeNode_def)
next
  case (Some d)
  show ?thesis
  proof (cases "ltNum d 0 \<or> gtNum d 3600000")
    case True
    with Some assms show ?thesis by (simp add: analyzeNode_def)
  next
    case False
    then have w: "withinHour d" by (rule filter_withinHour)
    have "list_all (\<lambda>e. stats_ok (snd e))
            (modify (n_name nd) (recordNode nd d)
               (ensure (n_name nd) \<lparr> st_durations = [], st_successCount = 0, st_failCount = 0 \<rparr> m))"
      by (intro modify_all ensure_all assms stats_ok_empty stats_ok_recordNode w)
    with Some False show ?thesis by (simp add: analyzeNode_def)
  qed
qed

lemma analyzeNodes_ok:
  "list_all (\<lambda>e. stats_ok (snd e)) m \<Longrightarrow> list_all (\<lambda>e. stats_ok (snd e)) (analyzeNodes getTime t nds m)"
  by (induction nds arbitrary: m) (simp_all add: analyzeNode_ok)

lemma analyzeTasks_ok:
  "list_all (\<lambda>e. stats_ok (snd e)) m \<Longrightarrow> list_all (\<lambda>e. stats_ok (snd e)) (analyzeTasks getTime ts m)"
  by (induction ts arbitrary: m) (simp_all add: analyzeNodes_ok)

lemma analyze_rows:
  assumes "r \<in> set (analyze getTime ts)"
  obtains name st where "stats_ok st" "st_durations st \<noteq> []" "mkRow (name, st) = [r]"
proof -
  from assms obtain e where e: "e \<in> set (analyzeTasks getTime ts [])" "r \<in> set (mkRow e)"
    by (auto simp: analyze_def set_sortBy)
  have "list_all (\<lambda>e. stats_ok (snd e)) (analyzeTasks getTime ts [])"
    by (rule analyzeTasks_ok) simp
  with e(1) have ok: "stats_ok (snd e)" by (simp add: list_all_iff)
  obtain name st where ns: "e = (name, st)" by (cases e)
  from e(2) ns have "st_durations st \<noteq> []" "mkRow (name, st) = [r]"
    by (auto simp: mkRow_def Let_def split: if_splits)
  with ok ns that show ?thesis by simp
qed

lemma roundDouble_values: "roundDouble 0 = 0" "roundDouble 1 = 1" "roundDouble 100 = 100"
  by code_simp+

lemma roundDouble_le:
  assumes "0 \<le> x" "x \<le> d" "roundDouble d = d"
  shows "roundDouble x \<le> d"
  using roundDouble_mono [OF assms(1,2)] assms(3) by simp

lemma roundDouble_error_below:
  assumes "0 \<le> x" "x < 2 powi (k + 1)"
  shows "\<bar>roundDouble x - x\<bar> \<le> 2 powi (k - 53)"
proof (cases "x = 0")
  case True
  then show ?thesis by (simp add: roundDouble_values)
next
  case False
  with assms(1) have x: "0 < x" by simp
  from expo_le [OF x assms(2)] have "expo x - 53 \<le> k - 53" by simp
  then have "(2::rat) powi (expo x - 53) \<le> 2 powi (k - 53)"
    by (intro power_int_increasing) simp_all
  with roundDouble_error [OF x] show ?thesis by linarith
qed

text \<open>The rate of \<open>s\<close> successes and \<open>f\<close> failures.\<close>

lemma rate_props:
  assumes "0 < s + f"
  shows "\<exists>x. rate s f = Some x \<and> 0 \<le> x \<and> x \<le> 100
             \<and> \<bar>x - 100 * of_nat s / of_nat (s + f)\<bar> \<le> 1 / 2 ^ 46
             \<and> (s = 0 \<longrightarrow> x = 0) \<and> (f = 0 \<longrightarrow> x = 100)"
proof -
  define r :: rat where "r = of_nat s / of_nat (s + f)"
  define a where "a = roundDouble r"
  define x where "x = roundDouble (a * 100)"
  have pos: "(0::rat) < of_nat (s + f)" using assms by (simp only: of_nat_0_less_iff)
  have "s \<le> s + f" by simp
  then have le: "(of_nat s :: rat) \<le> of_nat (s + f)" by (simp only: of_nat_le_iff)
  have r0: "0 \<le> r" unfolding r_def by simp
  have r1: "r \<le> 1" unfolding r_def using le pos by (simp add: divide_le_eq)
  have a0: "0 \<le> a" unfolding a_def using r0 by (rule roundDouble_nonneg)
  have a1: "a \<le> 1" unfolding a_def using r0 r1 roundDouble_values(2) by (rule roundDouble_le)
  from a0 have y0: "0 \<le> a * 100" by simp
  from a1 have y1: "a * 100 \<le> 100" by simp
  have x0: "0 \<le> x" unfolding x_def using y0 by (rule roundDouble_nonneg)
  have x1: "x \<le> 100" unfolding x_def using y0 y1 roundDouble_values(3) by (rule roundDouble_le)
  have ea: "\<bar>a - r\<bar> \<le> 1 / 2 ^ 54"
  proof (cases "r = 1")
    case True
    then show ?thesis by (simp add: a_def roundDouble_values)
  next
    case False
    with r1 have "r < 2 powi (- 1 + 1)" by simp
    from roundDouble_error_below [OF r0 this] show ?thesis
      by (simp add: a_def power_int_minus_divide)
  qed
  have "a * 100 < 2 powi (6 + 1)" using y1 by simp
  from roundDouble_error_below [OF y0 this] have ex: "\<bar>x - a * 100\<bar> \<le> 1 / 2 ^ 47"
    by (simp add: x_def power_int_minus_divide)
  have "\<bar>x - 100 * r\<bar> = \<bar>(x - a * 100) + 100 * (a - r)\<bar>" by simp
  also have "\<dots> \<le> \<bar>x - a * 100\<bar> + \<bar>100 * (a - r)\<bar>" by (rule abs_triangle_ineq)
  also have "\<dots> = \<bar>x - a * 100\<bar> + 100 * \<bar>a - r\<bar>" by (simp only: abs_mult abs_numeral)
  also have "\<dots> \<le> 1 / 2 ^ 47 + 100 * (1 / 2 ^ 54)"
    by (intro add_mono mult_left_mono ex ea) simp
  also have "\<dots> \<le> 1 / 2 ^ 46" by simp
  finally have err: "\<bar>x - 100 * of_nat s / of_nat (s + f)\<bar> \<le> 1 / 2 ^ 46"
    by (simp add: r_def)
  have z: "x = 0" if "s = 0"
    using that by (simp add: x_def a_def r_def roundDouble_values)
  have h: "x = 100" if "f = 0"
  proof -
    from that assms have "r = 1" by (simp add: r_def)
    then show ?thesis by (simp add: x_def a_def roundDouble_values)
  qed
  from assms have "rate s f = Some x" by (simp add: rate_def x_def a_def r_def)
  with x0 x1 err z h show ?thesis by blast
qed

lemma phase_rows:
  assumes "r \<in> set (analyzeRecognitionAction getTime ts)"
  shows "0 < ra_successCount r + ra_failCount r
         \<and> ra_successRate r = rate (ra_successCount r) (ra_failCount r)
         \<and> ra_count r = ra_successCount r + ra_failCount r"
proof -
  from assms obtain e where e: "r \<in> set (mkPhaseRow e)"
    by (auto simp: analyzeRecognitionAction_def set_sortBy)
  obtain name st where ns: "e = (name, st)" by (cases e)
  from e ns show ?thesis
    by (auto simp: mkPhaseRow_def Let_def split: if_splits)
qed


section \<open>Evaluation rules\<close>

lemmas eval_discover = discoverStep_def onTaskStarting_def onTaskFinished_def closeTask_def
  newTask_def isOpen_def taskKey_eq_iff truthyNum_def truthyStr_def orEmpty_def intern_def Let_def
  eventOf_def parserOf_def emptyDetails_def

lemmas eval_scan = scanStep_def onNextList_def onRecognitionNode_def onActionNode_def
  onRecognition_def onAction_def onPipelineNode_def mkNode_def nodeName_def initScan_def
  truthyNum_def truthyStr_def orEmpty_def orFalse_def orNum_def intern_def
  nonEmpty_def statusOf_def Let_def eventOf_def emptyDetails_def

section \<open>Identity of tasks\<close>

text \<open>
  Claim C5. Among the tasks that \<^verbatim>\<open>getTasks()\<close> returns no two have the same pair
  \<open>(uuid, task_id)\<close>, whether the uuid is empty or not. After any events, the key
  \<^verbatim>\<open>uuid_task_id\<close> is in \<^verbatim>\<open>taskMap\<close> exactly when a task with this uuid and this task id
  exists, and a \<^verbatim>\<open>Tasker.Task.Starting\<close> event whose key is already in \<^verbatim>\<open>taskMap\<close>
  leaves the task array as it is: it creates no task.
\<close>

theorem task_identity_unique:
  "distinct (map (\<lambda>t. (uuid t, task_id t)) (fst (getTasks getTime p)))
   \<and> (taskMap (discover getTime 0 pre \<lparr> tasks = [], taskMap = Map.empty \<rparr>) (taskKey u (Some i)) \<noteq> None
        \<longleftrightarrow> (\<exists>t\<in>set (tasks (discover getTime 0 pre \<lparr> tasks = [], taskMap = Map.empty \<rparr>)).
               uuid t = u \<and> task_id t = i))
   \<and> (e_message ev = ''Tasker.Task.Starting''
        \<and> taskMap (discover getTime 0 pre \<lparr> tasks = [], taskMap = Map.empty \<rparr>)
             (taskKey (orEmpty (d_uuid (e_details ev))) (d_task_id (e_details ev))) \<noteq> None
      \<longrightarrow> tasks (discover getTime 0 (pre @ [ev]) \<lparr> tasks = [], taskMap = Map.empty \<rparr>)
          = tasks (discover getTime 0 pre \<lparr> tasks = [], taskMap = Map.empty \<rparr>))"
proof (intro conjI impI)
  have "distinct (map keyOf (filter (\<lambda>t. entry t \<noteq> ''MaaTaskerPostStop'') (buildTasks getTime (events p))))"
    using distinct_keys_buildTasks by (rule distinct_map_filter)
  then show "distinct (map (\<lambda>t. (uuid t, task_id t)) (fst (getTasks getTime p)))"
    unfolding getTasks_def fst_conv by (rule distinct_ids_of_keys)
next
  show "taskMap (discover getTime 0 pre \<lparr> tasks = [], taskMap = Map.empty \<rparr>) (taskKey u (Some i)) \<noteq> None
        \<longleftrightarrow> (\<exists>t\<in>set (tasks (discover getTime 0 pre \<lparr> tasks = [], taskMap = Map.empty \<rparr>)).
               uuid t = u \<and> task_id t = i)"
    using discover_inv_result by (rule key_names_task)
next
  assume "e_message ev = ''Tasker.Task.Starting''
        \<and> taskMap (discover getTime 0 pre \<lparr> tasks = [], taskMap = Map.empty \<rparr>)
             (taskKey (orEmpty (d_uuid (e_details ev))) (d_task_id (e_details ev))) \<noteq> None"
  then show "tasks (discover getTime 0 (pre @ [ev]) \<lparr> tasks = [], taskMap = Map.empty \<rparr>)
          = tasks (discover getTime 0 pre \<lparr> tasks = [], taskMap = Map.empty \<rparr>)"
    by (auto simp add: discover_snoc discoverStep_def onTaskStarting_def Let_def)
qed

theorem task_identity_unique_witness:
  "distinct (map (\<lambda>t. (uuid t, task_id t))
      (fst (getTasks noClock (parserOf
         [eventOf ''1'' ''Tasker.Task.Starting'' (emptyDetails \<lparr> d_task_id := Some 5, d_uuid := Some ''a'' \<rparr>),
          eventOf ''2'' ''Tasker.Task.Starting'' (emptyDetails \<lparr> d_task_id := Some 5, d_uuid := Some ''a'' \<rparr>)]))))
   \<and> tasks (discover noClock 0
         ([eventOf ''1'' ''Tasker.Task.Starting'' (emptyDetails \<lparr> d_task_id := Some 5, d_uuid := Some ''a'' \<rparr>)]
          @ [eventOf ''2'' ''Tasker.Task.Starting'' (emptyDetails \<lparr> d_task_id := Some 5, d_uuid := Some ''a'' \<rparr>)])
         \<lparr> tasks = [], taskMap = Map.empty \<rparr>)
     = tasks (discover noClock 0
         [eventOf ''1'' ''Tasker.Task.Starting'' (emptyDetails \<lparr> d_task_id := Some 5, d_uuid := Some ''a'' \<rparr>)]
         \<lparr> tasks = [], taskMap = Map.empty \<rparr>)
   \<and> length (tasks (discover noClock 0
         [eventOf ''1'' ''Tasker.Task.Starting'' (emptyDetails \<lparr> d_task_id := Some 5, d_uuid := Some ''a'' \<rparr>)]
         \<lparr> tasks = [], taskMap = Map.empty \<rparr>)) = 1"
  using task_identity_unique [of noClock
      "parserOf
         [eventOf ''1'' ''Tasker.Task.Starting'' (emptyDetails \<lparr> d_task_id := Some 5, d_uuid := Some ''a'' \<rparr>),
          eventOf ''2'' ''Tasker.Task.Starting'' (emptyDetails \<lparr> d_task_id := Some 5, d_uuid := Some ''a'' \<rparr>)]"
      "[eventOf ''1'' ''Tasker.Task.Starting'' (emptyDetails \<lparr> d_task_id := Some 5, d_uuid := Some ''a'' \<rparr>)]"
      "''a''" 5
      "eventOf ''2'' ''Tasker.Task.Starting'' (emptyDetails \<lparr> d_task_id := Some 5, d_uuid := Some ''a'' \<rparr>)"]
  by (simp add: eval_discover)

section \<open>Identity of nodes\<close>

text \<open>
  Claim C8. In every task that \<^verbatim>\<open>getTasks()\<close> returns no two nodes have the same
  \<^verbatim>\<open>node_id\<close>. A \<^verbatim>\<open>Node.PipelineNode.Succeeded\<close> or \<^verbatim>\<open>Node.PipelineNode.Failed\<close> event of
  the task whose \<^verbatim>\<open>node_id\<close> is the id of a node already built from the earlier events
  of the task adds no node.
\<close>

theorem node_ids_unique:
  "(\<forall>t\<in>set (fst (getTasks getTime p)). distinct (map node_id (nodes t)))
   \<and> ((e_message ev = ''Node.PipelineNode.Succeeded'' \<or> e_message ev = ''Node.PipelineNode.Failed'')
        \<and> d_task_id (e_details ev) = Some tid \<and> d_node_id (e_details ev) = Some k
        \<and> k \<in> node_id ` set (sc_nodes (scanEvents tid pre initScan))
      \<longrightarrow> sc_nodes (scanEvents tid (pre @ [ev]) initScan) = sc_nodes (scanEvents tid pre initScan))"
proof (intro conjI ballI impI)
  fix t
  assume "t \<in> set (fst (getTasks getTime p))"
  then have "t \<in> set (buildTasks getTime (events p))" by (simp add: getTasks_def)
  then show "distinct (map node_id (nodes t))" by (simp add: nodes_buildTasks)
next
  assume a: "(e_message ev = ''Node.PipelineNode.Succeeded'' \<or> e_message ev = ''Node.PipelineNode.Failed'')
        \<and> d_task_id (e_details ev) = Some tid \<and> d_node_id (e_details ev) = Some k
        \<and> k \<in> node_id ` set (sc_nodes (scanEvents tid pre initScan))"
  have "scan_inv (scanEvents tid pre initScan)"
    by (rule inv_scanEvents) (rule inv_initScan)
  with a have "\<exists>j. d_node_id (e_details ev) = Some j \<and> j \<in> nodeIdSet (scanEvents tid pre initScan)"
    by (simp add: scan_inv_def)
  then have "sc_nodes (scanStep tid ev (scanEvents tid pre initScan)) = sc_nodes (scanEvents tid pre initScan)"
    by (intro scanStep_no_node) blast
  then show "sc_nodes (scanEvents tid (pre @ [ev]) initScan) = sc_nodes (scanEvents tid pre initScan)"
    by (simp add: scanEvents_append)
qed

theorem node_ids_unique_witness:
  "list_all (\<lambda>t. distinct (map node_id (nodes t)))
      (fst (getTasks noClock (parserOf
        [eventOf ''1'' ''Tasker.Task.Starting'' (emptyDetails \<lparr> d_task_id := Some 1 \<rparr>),
         eventOf ''2'' ''Node.PipelineNode.Succeeded'' (emptyDetails \<lparr> d_task_id := Some 1, d_node_id := Some 10 \<rparr>),
         eventOf ''3'' ''Node.PipelineNode.Succeeded'' (emptyDetails \<lparr> d_task_id := Some 1, d_node_id := Some 10 \<rparr>)])))
   \<and> map node_id (sc_nodes (scanEvents 1
        [eventOf ''2'' ''Node.PipelineNode.Succeeded'' (emptyDetails \<lparr> d_task_id := Some 1, d_node_id := Some 10 \<rparr>)]
        initScan)) = [10]
   \<and> sc_nodes (scanEvents 1
        ([eventOf ''2'' ''Node.PipelineNode.Succeeded'' (emptyDetails \<lparr> d_task_id := Some 1, d_node_id := Some 10 \<rparr>)]
         @ [eventOf ''3'' ''Node.PipelineNode.Succeeded'' (emptyDetails \<lparr> d_task_id := Some 1, d_node_id := Some 10 \<rparr>)])
        initScan)
     = sc_nodes (scanEvents 1
        [eventOf ''2'' ''Node.PipelineNode.Succeeded'' (emptyDetails \<lparr> d_task_id := Some 1, d_node_id := Some 10 \<rparr>)]
        initScan)"
proof -
  have n: "map node_id (sc_nodes (scanEvents 1
        [eventOf ''2'' ''Node.PipelineNode.Succeeded'' (emptyDetails \<lparr> d_task_id := Some 1, d_node_id := Some 10 \<rparr>)]
        initScan)) = [10]"
    by (simp add: eval_scan)
  then have "10 \<in> node_id ` set (sc_nodes (scanEvents 1
        [eventOf ''2'' ''Node.PipelineNode.Succeeded'' (emptyDetails \<lparr> d_task_id := Some 1, d_node_id := Some 10 \<rparr>)]
        initScan))"
    by (metis list.set_intros(1) set_map)
  moreover have "e_message (eventOf ''3'' ''Node.PipelineNode.Succeeded'' (emptyDetails \<lparr> d_task_id := Some 1, d_node_id := Some 10 \<rparr>))
       = ''Node.PipelineNode.Succeeded''"
     "d_task_id (e_details (eventOf ''3'' ''Node.PipelineNode.Succeeded'' (emptyDetails \<lparr> d_task_id := Some 1, d_node_id := Some 10 \<rparr>))) = Some 1"
     "d_node_id (e_details (eventOf ''3'' ''Node.PipelineNode.Succeeded'' (emptyDetails \<lparr> d_task_id := Some 1, d_node_id := Some 10 \<rparr>))) = Some 10"
    by (simp_all add: eventOf_def)
  ultimately show ?thesis
    using n node_ids_unique [of noClock "parserOf
        [eventOf ''1'' ''Tasker.Task.Starting'' (emptyDetails \<lparr> d_task_id := Some 1 \<rparr>),
         eventOf ''2'' ''Node.PipelineNode.Succeeded'' (emptyDetails \<lparr> d_task_id := Some 1, d_node_id := Some 10 \<rparr>),
         eventOf ''3'' ''Node.PipelineNode.Succeeded'' (emptyDetails \<lparr> d_task_id := Some 1, d_node_id := Some 10 \<rparr>)]"
      "eventOf ''3'' ''Node.PipelineNode.Succeeded'' (emptyDetails \<lparr> d_task_id := Some 1, d_node_id := Some 10 \<rparr>)"
      1 10
      "[eventOf ''2'' ''Node.PipelineNode.Succeeded'' (emptyDetails \<lparr> d_task_id := Some 1, d_node_id := Some 10 \<rparr>)]"]
    unfolding list_all_iff by blast
qed

section \<open>Missing and zero ids\<close>

text \<open>
  Claim C10. A \<^verbatim>\<open>Tasker.Task.Starting\<close> event whose \<^verbatim>\<open>task_id\<close> is missing or 0 creates
  no task: the task array is the same after it as before it, and no task that
  \<^verbatim>\<open>getTasks()\<close> returns has the index of this event as its start index. A
  \<^verbatim>\<open>Node.PipelineNode.Succeeded\<close> or \<^verbatim>\<open>Node.PipelineNode.Failed\<close> event whose \<^verbatim>\<open>node_id\<close> is
  missing or 0 adds no node, also when it is the first event of the task (\<open>npre\<close>
  empty). So no returned task has the id 0 and no node of one has the id 0.
\<close>

theorem falsy_ids_create_nothing:
  "(e_message ev = ''Tasker.Task.Starting''
      \<and> (d_task_id (e_details ev) = None \<or> d_task_id (e_details ev) = Some 0)
     \<longrightarrow> tasks (discover getTime 0 (pre @ [ev]) \<lparr> tasks = [], taskMap = Map.empty \<rparr>)
           = tasks (discover getTime 0 pre \<lparr> tasks = [], taskMap = Map.empty \<rparr>)
         \<and> (\<forall>t\<in>set (fst (getTasks getTime (p \<lparr> events := pre @ ev # post \<rparr>))).
               startEventIndex t \<noteq> Some (length pre)))
   \<and> ((e_message nev = ''Node.PipelineNode.Succeeded'' \<or> e_message nev = ''Node.PipelineNode.Failed'')
      \<and> (d_node_id (e_details nev) = None \<or> d_node_id (e_details nev) = Some 0)
     \<longrightarrow> sc_nodes (scanEvents tid (npre @ [nev]) initScan) = sc_nodes (scanEvents tid npre initScan))
   \<and> (\<forall>t\<in>set (fst (getTasks getTime p)). task_id t \<noteq> 0 \<and> (\<forall>n\<in>set (nodes t). node_id n \<noteq> 0))"
proof (intro conjI impI ballI)
  assume a: "e_message ev = ''Tasker.Task.Starting''
      \<and> (d_task_id (e_details ev) = None \<or> d_task_id (e_details ev) = Some 0)"
  then have "\<not> truthyNum (d_task_id (e_details ev))" by (auto simp: truthyNum_def)
  with a show "tasks (discover getTime 0 (pre @ [ev]) \<lparr> tasks = [], taskMap = Map.empty \<rparr>)
           = tasks (discover getTime 0 pre \<lparr> tasks = [], taskMap = Map.empty \<rparr>)"
    by (simp add: discover_snoc discoverStep_def onTaskStarting_def Let_def)
next
  fix t
  assume a: "e_message ev = ''Tasker.Task.Starting''
      \<and> (d_task_id (e_details ev) = None \<or> d_task_id (e_details ev) = Some 0)"
    and t: "t \<in> set (fst (getTasks getTime (p \<lparr> events := pre @ ev # post \<rparr>)))"
  from t have b: "t \<in> set (buildTasks getTime (pre @ ev # post))" by (simp add: getTasks_def)
  then have s: "startedAt (pre @ ev # post) t" and z: "task_id t \<noteq> 0"
    using startedAt_buildTasks task_id_buildTasks by blast+
  show "startEventIndex t \<noteq> Some (length pre)"
  proof
    assume "startEventIndex t = Some (length pre)"
    with s have "d_task_id (e_details ev) = Some (task_id t)" by (simp add: startedAt_def)
    with a z show False by auto
  qed
next
  assume a: "(e_message nev = ''Node.PipelineNode.Succeeded'' \<or> e_message nev = ''Node.PipelineNode.Failed'')
      \<and> (d_node_id (e_details nev) = None \<or> d_node_id (e_details nev) = Some 0)"
  then have "sc_nodes (scanStep tid nev (scanEvents tid npre initScan)) = sc_nodes (scanEvents tid npre initScan)"
    by (intro scanStep_no_node) blast
  then show "sc_nodes (scanEvents tid (npre @ [nev]) initScan) = sc_nodes (scanEvents tid npre initScan)"
    by (simp add: scanEvents_append)
next
  fix t
  assume "t \<in> set (fst (getTasks getTime p))"
  then have b: "t \<in> set (buildTasks getTime (events p))" by (simp add: getTasks_def)
  then show "task_id t \<noteq> 0" using task_id_buildTasks by blast
  fix n
  assume "n \<in> set (nodes t)"
  with b show "node_id n \<noteq> 0" using nodes_buildTasks by blast
qed


theorem falsy_ids_create_nothing_witness:
  "tasks (discover noClock 0
       ([eventOf ''1'' ''Tasker.Task.Starting'' (emptyDetails \<lparr> d_task_id := Some 1 \<rparr>)]
        @ [eventOf ''2'' ''Tasker.Task.Starting'' (emptyDetails \<lparr> d_task_id := Some 0 \<rparr>)])
       \<lparr> tasks = [], taskMap = Map.empty \<rparr>)
     = tasks (discover noClock 0
       [eventOf ''1'' ''Tasker.Task.Starting'' (emptyDetails \<lparr> d_task_id := Some 1 \<rparr>)]
       \<lparr> tasks = [], taskMap = Map.empty \<rparr>)
   \<and> list_all (\<lambda>t. startEventIndex t \<noteq> Some 1)
        (fst (getTasks noClock (parserOf [] \<lparr> events :=
          [eventOf ''1'' ''Tasker.Task.Starting'' (emptyDetails \<lparr> d_task_id := Some 1 \<rparr>)]
          @ eventOf ''2'' ''Tasker.Task.Starting'' (emptyDetails \<lparr> d_task_id := Some 0 \<rparr>) # [] \<rparr>)))
   \<and> sc_nodes (scanEvents 1
         ([] @ [eventOf ''3'' ''Node.PipelineNode.Succeeded'' (emptyDetails \<lparr> d_task_id := Some 1 \<rparr>)])
         initScan) = sc_nodes (scanEvents 1 [] initScan)
   \<and> list_all (\<lambda>t. task_id t \<noteq> 0 \<and> list_all (\<lambda>n. node_id n \<noteq> 0) (nodes t))
        (fst (getTasks noClock (parserOf [])))"
  using falsy_ids_create_nothing [where getTime = noClock and p = "parserOf []"
      and pre = "[eventOf ''1'' ''Tasker.Task.Starting'' (emptyDetails \<lparr> d_task_id := Some 1 \<rparr>)]"
      and ev = "eventOf ''2'' ''Tasker.Task.Starting'' (emptyDetails \<lparr> d_task_id := Some 0 \<rparr>)"
      and post = "[]" and tid = 1 and npre = "[]"
      and nev = "eventOf ''3'' ''Node.PipelineNode.Succeeded'' (emptyDetails \<lparr> d_task_id := Some 1 \<rparr>)"]
  by (simp add: eventOf_def emptyDetails_def list_all_iff)

section \<open>Owners of tasks\<close>

text \<open>
  Claim C6, as amended. For every sequence of lines and every task id other than 0,
  \<^verbatim>\<open>getTaskProcessId\<close> and \<^verbatim>\<open>getTaskThreadId\<close> return the process id and the thread id
  of the first line from which \<^verbatim>\<open>parseFile\<close> takes a \<^verbatim>\<open>Tasker.Task.Starting\<close> event with
  this task id (and nothing when there is no such line). No later line changes an
  owner once it is recorded: after more lines the two lookups give what they gave
  before. For the task id 0 nothing is ever recorded: whatever the lines are, also when
  they hold \<^verbatim>\<open>Tasker.Task.Starting\<close> events with \<^verbatim>\<open>task_id\<close> 0, the two lookups of 0 give
  nothing.
\<close>

theorem first_owner_recorded:
  "(t \<noteq> 0 \<longrightarrow>
      getTaskProcessId (parseFile rls p) t = map_option l_processId (firstStart t rls)
      \<and> getTaskThreadId (parseFile rls p) t = map_option l_threadId (firstStart t rls)
      \<and> (getTaskProcessId (parseFile pre p) t \<noteq> None
           \<longrightarrow> getTaskProcessId (parseFile (pre @ post) p) t = getTaskProcessId (parseFile pre p) t
             \<and> getTaskThreadId (parseFile (pre @ post) p) t = getTaskThreadId (parseFile pre p) t))
   \<and> getTaskProcessId (parseFile rls p) 0 = None
   \<and> getTaskThreadId (parseFile rls p) 0 = None"
proof -
  have c: "getTaskProcessId (parseFile xs p) t = map_option l_processId (firstStart t xs)
        \<and> getTaskThreadId (parseFile xs p) t = map_option l_threadId (firstStart t xs)"
    if "t \<noteq> 0" for xs
    using ingestLines_owner [OF owners_ok_init that, where rls = xs and p1 = p]
    by (simp add: getTaskProcessId_def getTaskThreadId_def parseFile_maps)
  have "firstStart t (pre @ post) = firstStart t pre" if "firstStart t pre \<noteq> None"
    using that by (auto simp: firstStart_def find_app split: option.splits)
  then have nz: "t \<noteq> 0 \<longrightarrow>
      getTaskProcessId (parseFile rls p) t = map_option l_processId (firstStart t rls)
      \<and> getTaskThreadId (parseFile rls p) t = map_option l_threadId (firstStart t rls)
      \<and> (getTaskProcessId (parseFile pre p) t \<noteq> None
           \<longrightarrow> getTaskProcessId (parseFile (pre @ post) p) t = getTaskProcessId (parseFile pre p) t
             \<and> getTaskThreadId (parseFile (pre @ post) p) t = getTaskThreadId (parseFile pre p) t)"
    using c by (auto simp del: map_option_eq_Some)
  from owners_ok_parseFile [of rls p]
  have k: "0 \<notin> set (map fst (taskProcessMap (parseFile rls p)))"
    and e: "map fst (taskThreadMap (parseFile rls p)) = map fst (taskProcessMap (parseFile rls p))"
    by (auto simp: owners_ok_def list_all_iff)
  from k e have k': "0 \<notin> set (map fst (taskThreadMap (parseFile rls p)))" by simp
  from k have zp: "getTaskProcessId (parseFile rls p) 0 = None"
    by (simp add: getTaskProcessId_def map_of_eq_None_iff)
  from k' have zt: "getTaskThreadId (parseFile rls p) 0 = None"
    by (simp add: getTaskThreadId_def map_of_eq_None_iff)
  from nz zp zt show ?thesis by (intro conjI)
qed

theorem first_owner_recorded_witness:
  "(7::int) \<noteq> 0
   \<and> getTaskProcessId (parseFile [startLine ''Px1'' ''Tx1'' 7 ''E'', startLine ''Px2'' ''Tx2'' 7 ''E'']
         (parserOf [])) 7 = Some ''Px1''
   \<and> getTaskThreadId (parseFile [startLine ''Px1'' ''Tx1'' 7 ''E'', startLine ''Px2'' ''Tx2'' 7 ''E'']
         (parserOf [])) 7 = Some ''Tx1''
   \<and> getTaskProcessId (parseFile ([startLine ''Px1'' ''Tx1'' 7 ''E''] @ [startLine ''Px2'' ''Tx2'' 7 ''E''])
         (parserOf [])) 7
     = getTaskProcessId (parseFile [startLine ''Px1'' ''Tx1'' 7 ''E''] (parserOf [])) 7
   \<and> getTaskProcessId (parseFile [startLine ''Px1'' ''Tx1'' 7 ''E'', startLine ''Px2'' ''Tx2'' 0 ''E'']
         (parserOf [])) 0 = None
   \<and> getTaskThreadId (parseFile [startLine ''Px1'' ''Tx1'' 7 ''E'', startLine ''Px2'' ''Tx2'' 0 ''E'']
         (parserOf [])) 0 = None"
proof -
  have f: "firstStart 7 [startLine ''Px1'' ''Tx1'' 7 ''E'', startLine ''Px2'' ''Tx2'' 7 ''E'']
           = snd (startLine ''Px1'' ''Tx1'' 7 ''E'')"
    "firstStart 7 [startLine ''Px1'' ''Tx1'' 7 ''E''] = snd (startLine ''Px1'' ''Tx1'' 7 ''E'')"
    by (simp_all add: firstStart_def startsTask_def startLine_def emptyDetails_def)
  from first_owner_recorded [of 7 "[startLine ''Px1'' ''Tx1'' 7 ''E'', startLine ''Px2'' ''Tx2'' 7 ''E'']"
      "parserOf []" "[startLine ''Px1'' ''Tx1'' 7 ''E'']" "[startLine ''Px2'' ''Tx2'' 7 ''E'']"]
    first_owner_recorded [of 7 "[startLine ''Px1'' ''Tx1'' 7 ''E'']" "parserOf []" "[]" "[]"]
    first_owner_recorded [of 7 "[startLine ''Px1'' ''Tx1'' 7 ''E'', startLine ''Px2'' ''Tx2'' 0 ''E'']"
      "parserOf []" "[]" "[]"]
  show ?thesis
    unfolding f by (simp add: startLine_def)
qed

text \<open>The claim as it was stated, for every present task id, fails for the id 0: the
  guard \<^verbatim>\<open>&& details.task_id\<close> keeps a start event with \<^verbatim>\<open>task_id\<close> 0 out of the maps.\<close>

theorem zero_task_id_counterexample:
  "map_option l_processId (firstStart 0 [startLine ''Px1'' ''Tx1'' 0 ''E'']) = Some ''Px1''
   \<and> getTaskProcessId (parseFile [startLine ''Px1'' ''Tx1'' 0 ''E''] (parserOf [])) 0 = None
   \<and> getTaskThreadId (parseFile [startLine ''Px1'' ''Tx1'' 0 ''E''] (parserOf [])) 0 = None"
  by (simp add: firstStart_def startsTask_def startLine_def emptyDetails_def
        getTaskProcessId_def getTaskThreadId_def parseFile_def ingestLine_def
        parseEventNotification_def truthyStr_def truthyNum_def parserOf_def)

lemma two_lines:
  "taskProcessMap (parseFile [startLine ''Px2'' ''Tx2'' 2 ''E'', startLine ''Px1'' ''Tx1'' 1 ''E''] (parserOf []))
     = [(2, ''Px2''), (1, ''Px1'')]"
  "taskThreadMap (parseFile [startLine ''Px2'' ''Tx2'' 2 ''E'', startLine ''Px1'' ''Tx1'' 1 ''E''] (parserOf []))
     = [(2, ''Tx2''), (1, ''Tx1'')]"
  by (simp_all add: startLine_def emptyDetails_def parseFile_def ingestLine_def
        parseEventNotification_def recordOwner_def truthyStr_def truthyNum_def parserOf_def)

text \<open>
  Claim C4, as amended. The lists that \<^verbatim>\<open>getProcessIds()\<close> and \<^verbatim>\<open>getThreadIds()\<close> return
  are sorted and without repetition, and every id in them is the recorded process id
  (thread id) of the task id of at least one task that \<^verbatim>\<open>getTasks()\<close> builds from the
  parsed events. The tasks meant are all the tasks built, before \<^verbatim>\<open>getTasks()\<close> removes
  those whose entry is \<^verbatim>\<open>MaaTaskerPostStop\<close> from its result.
\<close>

theorem owner_ids_of_started_tasks:
  "sorted (getProcessIds (parseFile rls p)) \<and> distinct (getProcessIds (parseFile rls p))
   \<and> sorted (getThreadIds (parseFile rls p)) \<and> distinct (getThreadIds (parseFile rls p))
   \<and> (\<forall>pid\<in>set (getProcessIds (parseFile rls p)).
         \<exists>t\<in>set (buildTasks getTime (events (parseFile rls p))).
           getTaskProcessId (parseFile rls p) (task_id t) = Some pid)
   \<and> (\<forall>tid\<in>set (getThreadIds (parseFile rls p)).
         \<exists>t\<in>set (buildTasks getTime (events (parseFile rls p))).
           getTaskThreadId (parseFile rls p) (task_id t) = Some tid)"
proof -
  let ?q = "parseFile rls p"
  from owners_ok_parseFile [of rls p]
  have d: "distinct (map fst (taskProcessMap ?q))"
    and e: "map fst (taskThreadMap ?q) = map fst (taskProcessMap ?q)"
    and s: "\<forall>k\<in>set (map fst (taskProcessMap ?q)). k \<noteq> 0
              \<and> (\<exists>ev\<in>set (events ?q). e_message ev = ''Tasker.Task.Starting''
                                      \<and> d_task_id (e_details ev) = Some k)"
    by (simp_all add: owners_ok_def list_all_iff list_ex_iff)
  have built: "\<exists>x\<in>set (buildTasks getTime (events ?q)). task_id x = k"
    if "k \<in> set (map fst (taskProcessMap ?q))" for k
    using s that started_task_built by blast
  have pr: "\<exists>t\<in>set (buildTasks getTime (events ?q)). getTaskProcessId ?q (task_id t) = Some pid"
    if "pid \<in> set (getProcessIds ?q)" for pid
  proof -
    from that have "pid \<in> set (map snd (taskProcessMap ?q))" by (simp add: getProcessIds_def)
    from owner_of_value [OF d this] obtain k
      where k: "k \<in> set (map fst (taskProcessMap ?q))" "map_of (taskProcessMap ?q) k = Some pid"
      by blast
    from built [OF k(1)] k(2) show ?thesis by (auto simp: getTaskProcessId_def)
  qed
  have th: "\<exists>t\<in>set (buildTasks getTime (events ?q)). getTaskThreadId ?q (task_id t) = Some tid"
    if "tid \<in> set (getThreadIds ?q)" for tid
  proof -
    from that have v: "tid \<in> set (map snd (taskThreadMap ?q))" by (simp add: getThreadIds_def)
    from d e have "distinct (map fst (taskThreadMap ?q))" by simp
    from owner_of_value [OF this v] obtain k
      where k: "k \<in> set (map fst (taskThreadMap ?q))" "map_of (taskThreadMap ?q) k = Some tid"
      by blast
    from k(1) e have "k \<in> set (map fst (taskProcessMap ?q))" by simp
    from built [OF this] k(2) show ?thesis by (auto simp: getTaskThreadId_def)
  qed
  show ?thesis
    using pr th by (simp add: getProcessIds_def getThreadIds_def)
qed

theorem owner_ids_of_started_tasks_witness:
  "getProcessIds (parseFile [startLine ''Px2'' ''Tx2'' 2 ''E'', startLine ''Px1'' ''Tx1'' 1 ''E''] (parserOf []))
     = [''Px1'', ''Px2'']
   \<and> sorted (getProcessIds (parseFile [startLine ''Px2'' ''Tx2'' 2 ''E'', startLine ''Px1'' ''Tx1'' 1 ''E''] (parserOf [])))
   \<and> list_all (\<lambda>pid. list_ex (\<lambda>t. getTaskProcessId
          (parseFile [startLine ''Px2'' ''Tx2'' 2 ''E'', startLine ''Px1'' ''Tx1'' 1 ''E''] (parserOf []))
          (task_id t) = Some pid)
        (buildTasks noClock (events
          (parseFile [startLine ''Px2'' ''Tx2'' 2 ''E'', startLine ''Px1'' ''Tx1'' 1 ''E''] (parserOf [])))))
      (getProcessIds (parseFile [startLine ''Px2'' ''Tx2'' 2 ''E'', startLine ''Px1'' ''Tx1'' 1 ''E''] (parserOf [])))"
proof -
  have "getProcessIds (parseFile [startLine ''Px2'' ''Tx2'' 2 ''E'', startLine ''Px1'' ''Tx1'' 1 ''E''] (parserOf []))
     = [''Px1'', ''Px2'']"
    unfolding getProcessIds_def two_lines by code_simp
  then show ?thesis
    using owner_ids_of_started_tasks [of "[startLine ''Px2'' ''Tx2'' 2 ''E'', startLine ''Px1'' ''Tx1'' 1 ''E'']"
        "parserOf []" noClock]
    unfolding list_all_iff list_ex_iff by blast
qed

text \<open>The claim as it was stated, with the tasks that \<^verbatim>\<open>getTasks()\<close> returns, fails when
  the only task of a process is the task \<^verbatim>\<open>MaaTaskerPostStop\<close>: the process id is listed
  and \<^verbatim>\<open>getTasks()\<close> returns no task.\<close>

theorem post_stop_owner_counterexample:
  "getProcessIds (parseFile [startLine ''Px1'' ''Tx1'' 1 ''MaaTaskerPostStop''] (parserOf [])) = [''Px1'']
   \<and> getThreadIds (parseFile [startLine ''Px1'' ''Tx1'' 1 ''MaaTaskerPostStop''] (parserOf [])) = [''Tx1'']
   \<and> fst (getTasks noClock (parseFile [startLine ''Px1'' ''Tx1'' 1 ''MaaTaskerPostStop''] (parserOf []))) = []"
proof -
  have p: "parseFile [startLine ''Px1'' ''Tx1'' 1 ''MaaTaskerPostStop''] (parserOf [])
      = \<lparr> events = [\<lparr> e_timestamp = ''2025-01-01 00:00:00.000'', e_level = ''INF'',
                       e_message = ''Tasker.Task.Starting'',
                       e_details = emptyDetails \<lparr> d_task_id := Some 1, d_entry := Some ''MaaTaskerPostStop'' \<rparr>,
                       e_lineNumber = 1 \<rparr>],
          processIds = {''Px1''}, threadIds = {''Tx1''},
          taskProcessMap = [(1, ''Px1'')], taskThreadMap = [(1, ''Tx1'')] \<rparr>"
    by (simp add: startLine_def emptyDetails_def parseFile_def ingestLine_def mkEvent_def
        parseEventNotification_def recordOwner_def truthyStr_def truthyNum_def parserOf_def)
  show ?thesis
    unfolding p
    by (simp add: getProcessIds_def getThreadIds_def getTasks_def buildTasks_def attachNodes_more
          eval_discover)
qed

section \<open>Scenarios of getTasks\<close>

lemma trim_letter: "trim ''a'' = ''a''"
  by code_simp

lemma round_trip_discover:
  "tasks (discover getTime 0
       [\<lparr> e_timestamp = ts1, e_level = lv1, e_message = ''Tasker.Task.Starting'',
           e_details = emptyDetails \<lparr> d_task_id := Some 1, d_uuid := Some ''a'' \<rparr>,
           e_lineNumber = n1 \<rparr>,
        \<lparr> e_timestamp = ts2, e_level = lv2, e_message = ''Node.PipelineNode.Succeeded'',
           e_details = emptyDetails \<lparr> d_task_id := Some 1, d_node_id := Some 10, d_name := Some ''X'' \<rparr>,
           e_lineNumber = n2 \<rparr>,
        \<lparr> e_timestamp = ts3, e_level = lv3, e_message = ''Tasker.Task.Succeeded'',
           e_details = emptyDetails \<lparr> d_task_id := Some 1, d_uuid := Some ''a'' \<rparr>,
           e_lineNumber = n3 \<rparr>] \<lparr> tasks = [], taskMap = Map.empty \<rparr>)
   = [\<lparr> task_id = 1, entry = [], hash = [], uuid = ''a'', start_time = ts1, end_time = Some ts3,
        status = Succeeded, nodes = [],
        duration = (if ts1 \<noteq> [] \<and> ts3 \<noteq> [] then Some (minus_ms (getTime ts3) (getTime ts1)) else None),
        startEventIndex = Some 0, endEventIndex = Some 2 \<rparr>]"
  by (simp add: eval_discover trim_letter)


lemma round_trip_nodes:
  "startEventIndex t = Some 0 \<Longrightarrow> endEventIndex t = Some 2 \<Longrightarrow> task_id t = 1 \<Longrightarrow>
   \<exists>n. getTaskNodes
       [\<lparr> e_timestamp = ts1, e_level = lv1, e_message = ''Tasker.Task.Starting'',
           e_details = emptyDetails \<lparr> d_task_id := Some 1, d_uuid := Some ''a'' \<rparr>,
           e_lineNumber = n1 \<rparr>,
        \<lparr> e_timestamp = ts2, e_level = lv2, e_message = ''Node.PipelineNode.Succeeded'',
           e_details = emptyDetails \<lparr> d_task_id := Some 1, d_node_id := Some 10, d_name := Some ''X'' \<rparr>,
           e_lineNumber = n2 \<rparr>,
        \<lparr> e_timestamp = ts3, e_level = lv3, e_message = ''Tasker.Task.Succeeded'',
           e_details = emptyDetails \<lparr> d_task_id := Some 1, d_uuid := Some ''a'' \<rparr>,
           e_lineNumber = n3 \<rparr>] t = [n] \<and> n_name n = ''X'' \<and> node_id n = 10"
  by (simp add: getTaskNodes_def slice_def eval_scan)


text \<open>
  Claim C3. For the event sequence that consists exactly of
  \<^verbatim>\<open>Tasker.Task.Starting{task_id:1,uuid:"a"}\<close>,
  \<^verbatim>\<open>Node.PipelineNode.Succeeded{task_id:1,node_id:10,name:"X"}\<close> and
  \<^verbatim>\<open>Tasker.Task.Succeeded{task_id:1,uuid:"a"}\<close>, whatever the timestamps, levels and
  line numbers of the three events, \<^verbatim>\<open>getTasks()\<close> returns exactly one task; its status
  is \<^verbatim>\<open>succeeded\<close> and it holds exactly one node, whose name is "X".
\<close>

theorem round_trip_scenario:
  "\<exists>t n. fst (getTasks getTime (p \<lparr> events :=
       [\<lparr> e_timestamp = ts1, e_level = lv1, e_message = ''Tasker.Task.Starting'',
           e_details = emptyDetails \<lparr> d_task_id := Some 1, d_uuid := Some ''a'' \<rparr>,
           e_lineNumber = n1 \<rparr>,
        \<lparr> e_timestamp = ts2, e_level = lv2, e_message = ''Node.PipelineNode.Succeeded'',
           e_details = emptyDetails \<lparr> d_task_id := Some 1, d_node_id := Some 10, d_name := Some ''X'' \<rparr>,
           e_lineNumber = n2 \<rparr>,
        \<lparr> e_timestamp = ts3, e_level = lv3, e_message = ''Tasker.Task.Succeeded'',
           e_details = emptyDetails \<lparr> d_task_id := Some 1, d_uuid := Some ''a'' \<rparr>,
           e_lineNumber = n3 \<rparr>] \<rparr>)) = [t]
     \<and> status t = Succeeded \<and> task_id t = 1 \<and> uuid t = ''a''
     \<and> nodes t = [n] \<and> n_name n = ''X'' \<and> node_id n = 10"
proof -
  let ?evs = "[\<lparr> e_timestamp = ts1, e_level = lv1, e_message = ''Tasker.Task.Starting'',
           e_details = emptyDetails \<lparr> d_task_id := Some 1, d_uuid := Some ''a'' \<rparr>,
           e_lineNumber = n1 \<rparr>,
        \<lparr> e_timestamp = ts2, e_level = lv2, e_message = ''Node.PipelineNode.Succeeded'',
           e_details = emptyDetails \<lparr> d_task_id := Some 1, d_node_id := Some 10, d_name := Some ''X'' \<rparr>,
           e_lineNumber = n2 \<rparr>,
        \<lparr> e_timestamp = ts3, e_level = lv3, e_message = ''Tasker.Task.Succeeded'',
           e_details = emptyDetails \<lparr> d_task_id := Some 1, d_uuid := Some ''a'' \<rparr>,
           e_lineNumber = n3 \<rparr>]"
  let ?new = "\<lparr> task_id = 1, entry = [], hash = [], uuid = ''a'', start_time = ts1, end_time = Some ts3,
        status = Succeeded, nodes = [],
        duration = (if ts1 \<noteq> [] \<and> ts3 \<noteq> [] then Some (minus_ms (getTime ts3) (getTime ts1)) else None),
        startEventIndex = Some 0, endEventIndex = Some 2 \<rparr>"
  let ?res = "attachNodes getTime ?evs ?new"
  have d: "tasks (discover getTime 0 ?evs \<lparr> tasks = [], taskMap = Map.empty \<rparr>) = [?new]"
    by (rule round_trip_discover)
  have "\<exists>n. getTaskNodes ?evs ?new = [n] \<and> n_name n = ''X'' \<and> node_id n = 10"
    by (rule round_trip_nodes) simp_all
  then obtain n where n: "nodes ?res = [n]" "n_name n = ''X''" "node_id n = 10"
    by (auto simp only: attachNodes_fields)
  have "buildTasks getTime ?evs
        = map (attachNodes getTime ?evs) (tasks (discover getTime 0 ?evs \<lparr> tasks = [], taskMap = Map.empty \<rparr>))"
    by (rule buildTasks_def)
  also have "\<dots> = map (attachNodes getTime ?evs) [?new]"
    by (rule arg_cong [OF d])
  also have "\<dots> = [?res]" by simp
  finally have b: "buildTasks getTime ?evs = [?res]" .
  have "fst (getTasks getTime (p \<lparr> events := ?evs \<rparr>))
        = filter (\<lambda>t. entry t \<noteq> ''MaaTaskerPostStop'') (buildTasks getTime ?evs)"
    by (simp add: getTasks_def)
  also have "\<dots> = filter (\<lambda>t. entry t \<noteq> ''MaaTaskerPostStop'') [?res]"
    by (rule arg_cong [OF b])
  also have "\<dots> = [?res]"
    by (simp add: attachNodes_more)
  finally have "fst (getTasks getTime (p \<lparr> events := ?evs \<rparr>)) = [?res]" .
  moreover have "status ?res = Succeeded" "task_id ?res = 1" "uuid ?res = ''a''"
    by (simp_all add: attachNodes_more attachNodes_fields)
  ultimately show ?thesis using n by blast
qed

lemma fifo_discover:
  "ts3 \<noteq> [] \<Longrightarrow> tasks (discover getTime 0
       [\<lparr> e_timestamp = ts1, e_level = lv1, e_message = ''Tasker.Task.Starting'',
           e_details = emptyDetails \<lparr> d_task_id := Some 5, d_uuid := Some [] \<rparr>, e_lineNumber = n1 \<rparr>,
        \<lparr> e_timestamp = ts2, e_level = lv2, e_message = ''Tasker.Task.Starting'',
           e_details = emptyDetails \<lparr> d_task_id := Some 5, d_uuid := Some [] \<rparr>, e_lineNumber = n2 \<rparr>,
        \<lparr> e_timestamp = ts3, e_level = lv3, e_message = ''Tasker.Task.Succeeded'',
           e_details = emptyDetails \<lparr> d_task_id := Some 5 \<rparr>, e_lineNumber = n3 \<rparr>,
        \<lparr> e_timestamp = ts4, e_level = lv4, e_message = ''Tasker.Task.Succeeded'',
           e_details = emptyDetails \<lparr> d_task_id := Some 5 \<rparr>, e_lineNumber = n4 \<rparr>]
       \<lparr> tasks = [], taskMap = Map.empty \<rparr>)
   = [\<lparr> task_id = 5, entry = [], hash = [], uuid = [], start_time = ts1, end_time = Some ts3,
        status = Succeeded, nodes = [],
        duration = (if ts1 \<noteq> [] then Some (minus_ms (getTime ts3) (getTime ts1)) else None),
        startEventIndex = Some 0, endEventIndex = Some 2 \<rparr>]"
  by (simp add: eval_discover)

text \<open>
  Claim C2, as amended. For the event sequence of two \<^verbatim>\<open>Tasker.Task.Starting\<close> events,
  both with the empty uuid and \<^verbatim>\<open>task_id\<close> 5, followed by two
  \<^verbatim>\<open>Tasker.Task.Succeeded{task_id:5}\<close> events, \<^verbatim>\<open>getTasks()\<close> creates one task only: the
  second start event has the key \<^verbatim>\<open>_5\<close> of the first and is dropped as a duplicate. The
  first close event (its timestamp is not empty, as that of every decoded line) matches
  this task, the earliest started open one, so that the task ends with status
  \<^verbatim>\<open>succeeded\<close> and with the index 2 of that event as its end index; the second close
  event finds no open task.
\<close>

theorem fifo_scenario_single_task:
  "ts3 \<noteq> [] \<Longrightarrow>
   \<exists>t. fst (getTasks getTime (p \<lparr> events :=
       [\<lparr> e_timestamp = ts1, e_level = lv1, e_message = ''Tasker.Task.Starting'',
           e_details = emptyDetails \<lparr> d_task_id := Some 5, d_uuid := Some [] \<rparr>, e_lineNumber = n1 \<rparr>,
        \<lparr> e_timestamp = ts2, e_level = lv2, e_message = ''Tasker.Task.Starting'',
           e_details = emptyDetails \<lparr> d_task_id := Some 5, d_uuid := Some [] \<rparr>, e_lineNumber = n2 \<rparr>,
        \<lparr> e_timestamp = ts3, e_level = lv3, e_message = ''Tasker.Task.Succeeded'',
           e_details = emptyDetails \<lparr> d_task_id := Some 5 \<rparr>, e_lineNumber = n3 \<rparr>,
        \<lparr> e_timestamp = ts4, e_level = lv4, e_message = ''Tasker.Task.Succeeded'',
           e_details = emptyDetails \<lparr> d_task_id := Some 5 \<rparr>, e_lineNumber = n4 \<rparr>] \<rparr>)) = [t]
     \<and> status t = Succeeded \<and> task_id t = 5 \<and> uuid t = []
     \<and> startEventIndex t = Some 0 \<and> endEventIndex t = Some 2 \<and> end_time t = Some ts3"
proof -
  assume ts3: "ts3 \<noteq> []"
  let ?evs = "[\<lparr> e_timestamp = ts1, e_level = lv1, e_message = ''Tasker.Task.Starting'',
           e_details = emptyDetails \<lparr> d_task_id := Some 5, d_uuid := Some [] \<rparr>, e_lineNumber = n1 \<rparr>,
        \<lparr> e_timestamp = ts2, e_level = lv2, e_message = ''Tasker.Task.Starting'',
           e_details = emptyDetails \<lparr> d_task_id := Some 5, d_uuid := Some [] \<rparr>, e_lineNumber = n2 \<rparr>,
        \<lparr> e_timestamp = ts3, e_level = lv3, e_message = ''Tasker.Task.Succeeded'',
           e_details = emptyDetails \<lparr> d_task_id := Some 5 \<rparr>, e_lineNumber = n3 \<rparr>,
        \<lparr> e_timestamp = ts4, e_level = lv4, e_message = ''Tasker.Task.Succeeded'',
           e_details = emptyDetails \<lparr> d_task_id := Some 5 \<rparr>, e_lineNumber = n4 \<rparr>]"
  let ?new = "\<lparr> task_id = 5, entry = [], hash = [], uuid = [], start_time = ts1, end_time = Some ts3,
        status = Succeeded, nodes = [],
        duration = (if ts1 \<noteq> [] then Some (minus_ms (getTime ts3) (getTime ts1)) else None),
        startEventIndex = Some 0, endEventIndex = Some 2 \<rparr>"
  let ?res = "attachNodes getTime ?evs ?new"
  have d: "tasks (discover getTime 0 ?evs \<lparr> tasks = [], taskMap = Map.empty \<rparr>) = [?new]"
    using ts3 by (rule fifo_discover)
  have "buildTasks getTime ?evs
        = map (attachNodes getTime ?evs) (tasks (discover getTime 0 ?evs \<lparr> tasks = [], taskMap = Map.empty \<rparr>))"
    by (rule buildTasks_def)
  also have "\<dots> = map (attachNodes getTime ?evs) [?new]"
    by (rule arg_cong [OF d])
  also have "\<dots> = [?res]" by simp
  finally have b: "buildTasks getTime ?evs = [?res]" .
  have "fst (getTasks getTime (p \<lparr> events := ?evs \<rparr>))
        = filter (\<lambda>t. entry t \<noteq> ''MaaTaskerPostStop'') (buildTasks getTime ?evs)"
    by (simp add: getTasks_def)
  also have "\<dots> = filter (\<lambda>t. entry t \<noteq> ''MaaTaskerPostStop'') [?res]"
    by (rule arg_cong [OF b])
  also have "\<dots> = [?res]"
    by (simp add: attachNodes_more)
  finally have "fst (getTasks getTime (p \<lparr> events := ?evs \<rparr>)) = [?res]" .
  moreover have "status ?res = Succeeded" "task_id ?res = 5" "uuid ?res = []"
    "startEventIndex ?res = Some 0" "endEventIndex ?res = Some 2" "end_time ?res = Some ts3"
    by (simp_all add: attachNodes_more attachNodes_fields)
  ultimately show ?thesis by blast
qed

theorem fifo_scenario_single_task_witness:
  "''3'' \<noteq> [] \<and> (\<exists>t. fst (getTasks noClock (parserOf [] \<lparr> events :=
       [\<lparr> e_timestamp = ''1'', e_level = ''info'', e_message = ''Tasker.Task.Starting'',
           e_details = emptyDetails \<lparr> d_task_id := Some 5, d_uuid := Some [] \<rparr>, e_lineNumber = 1 \<rparr>,
        \<lparr> e_timestamp = ''2'', e_level = ''info'', e_message = ''Tasker.Task.Starting'',
           e_details = emptyDetails \<lparr> d_task_id := Some 5, d_uuid := Some [] \<rparr>, e_lineNumber = 2 \<rparr>,
        \<lparr> e_timestamp = ''3'', e_level = ''info'', e_message = ''Tasker.Task.Succeeded'',
           e_details = emptyDetails \<lparr> d_task_id := Some 5 \<rparr>, e_lineNumber = 3 \<rparr>,
        \<lparr> e_timestamp = ''4'', e_level = ''info'', e_message = ''Tasker.Task.Succeeded'',
           e_details = emptyDetails \<lparr> d_task_id := Some 5 \<rparr>, e_lineNumber = 4 \<rparr>] \<rparr>)) = [t]
     \<and> status t = Succeeded \<and> task_id t = 5 \<and> uuid t = []
     \<and> startEventIndex t = Some 0 \<and> endEventIndex t = Some 2 \<and> end_time t = Some ''3'')"
proof
  show "''3'' \<noteq> []" by simp
  then show "\<exists>t. fst (getTasks noClock (parserOf [] \<lparr> events :=
       [\<lparr> e_timestamp = ''1'', e_level = ''info'', e_message = ''Tasker.Task.Starting'',
           e_details = emptyDetails \<lparr> d_task_id := Some 5, d_uuid := Some [] \<rparr>, e_lineNumber = 1 \<rparr>,
        \<lparr> e_timestamp = ''2'', e_level = ''info'', e_message = ''Tasker.Task.Starting'',
           e_details = emptyDetails \<lparr> d_task_id := Some 5, d_uuid := Some [] \<rparr>, e_lineNumber = 2 \<rparr>,
        \<lparr> e_timestamp = ''3'', e_level = ''info'', e_message = ''Tasker.Task.Succeeded'',
           e_details = emptyDetails \<lparr> d_task_id := Some 5 \<rparr>, e_lineNumber = 3 \<rparr>,
        \<lparr> e_timestamp = ''4'', e_level = ''info'', e_message = ''Tasker.Task.Succeeded'',
           e_details = emptyDetails \<lparr> d_task_id := Some 5 \<rparr>, e_lineNumber = 4 \<rparr>] \<rparr>)) = [t]
     \<and> status t = Succeeded \<and> task_id t = 5 \<and> uuid t = []
     \<and> startEventIndex t = Some 0 \<and> endEventIndex t = Some 2 \<and> end_time t = Some ''3''"
    by (rule fifo_scenario_single_task)
qed

text \<open>The claim as it was stated fails on this input: there is one task, not two.\<close>

theorem fifo_scenario_counterexample:
  "length (tasks (discover noClock 0
       [eventOf ''1'' ''Tasker.Task.Starting'' (emptyDetails \<lparr> d_task_id := Some 5, d_uuid := Some [] \<rparr>),
        eventOf ''2'' ''Tasker.Task.Starting'' (emptyDetails \<lparr> d_task_id := Some 5, d_uuid := Some [] \<rparr>),
        eventOf ''3'' ''Tasker.Task.Succeeded'' (emptyDetails \<lparr> d_task_id := Some 5 \<rparr>),
        eventOf ''4'' ''Tasker.Task.Succeeded'' (emptyDetails \<lparr> d_task_id := Some 5 \<rparr>)]
       \<lparr> tasks = [], taskMap = Map.empty \<rparr>)) = 1
   \<and> length (fst (getTasks noClock (parserOf
       [eventOf ''1'' ''Tasker.Task.Starting'' (emptyDetails \<lparr> d_task_id := Some 5, d_uuid := Some [] \<rparr>),
        eventOf ''2'' ''Tasker.Task.Starting'' (emptyDetails \<lparr> d_task_id := Some 5, d_uuid := Some [] \<rparr>),
        eventOf ''3'' ''Tasker.Task.Succeeded'' (emptyDetails \<lparr> d_task_id := Some 5 \<rparr>),
        eventOf ''4'' ''Tasker.Task.Succeeded'' (emptyDetails \<lparr> d_task_id := Some 5 \<rparr>)]))) = 1"
proof -
  have d: "tasks (discover noClock 0
       [eventOf ''1'' ''Tasker.Task.Starting'' (emptyDetails \<lparr> d_task_id := Some 5, d_uuid := Some [] \<rparr>),
        eventOf ''2'' ''Tasker.Task.Starting'' (emptyDetails \<lparr> d_task_id := Some 5, d_uuid := Some [] \<rparr>),
        eventOf ''3'' ''Tasker.Task.Succeeded'' (emptyDetails \<lparr> d_task_id := Some 5 \<rparr>),
        eventOf ''4'' ''Tasker.Task.Succeeded'' (emptyDetails \<lparr> d_task_id := Some 5 \<rparr>)]
       \<lparr> tasks = [], taskMap = Map.empty \<rparr>)
     = [\<lparr> task_id = 5, entry = [], hash = [], uuid = [], start_time = ''1'', end_time = Some ''3'',
        status = Succeeded, nodes = [], duration = Some None,
        startEventIndex = Some 0, endEventIndex = Some 2 \<rparr>]"
    by (simp add: eval_discover noClock_def minus_ms_def)
  have b: "buildTasks noClock
       [eventOf ''1'' ''Tasker.Task.Starting'' (emptyDetails \<lparr> d_task_id := Some 5, d_uuid := Some [] \<rparr>),
        eventOf ''2'' ''Tasker.Task.Starting'' (emptyDetails \<lparr> d_task_id := Some 5, d_uuid := Some [] \<rparr>),
        eventOf ''3'' ''Tasker.Task.Succeeded'' (emptyDetails \<lparr> d_task_id := Some 5 \<rparr>),
        eventOf ''4'' ''Tasker.Task.Succeeded'' (emptyDetails \<lparr> d_task_id := Some 5 \<rparr>)]
     = map (attachNodes noClock
       [eventOf ''1'' ''Tasker.Task.Starting'' (emptyDetails \<lparr> d_task_id := Some 5, d_uuid := Some [] \<rparr>),
        eventOf ''2'' ''Tasker.Task.Starting'' (emptyDetails \<lparr> d_task_id := Some 5, d_uuid := Some [] \<rparr>),
        eventOf ''3'' ''Tasker.Task.Succeeded'' (emptyDetails \<lparr> d_task_id := Some 5 \<rparr>),
        eventOf ''4'' ''Tasker.Task.Succeeded'' (emptyDetails \<lparr> d_task_id := Some 5 \<rparr>)])
       [\<lparr> task_id = 5, entry = [], hash = [], uuid = [], start_time = ''1'', end_time = Some ''3'',
        status = Succeeded, nodes = [], duration = Some None,
        startEventIndex = Some 0, endEventIndex = Some 2 \<rparr>]"
    unfolding buildTasks_def by (rule arg_cong [OF d])
  have g: "fst (getTasks noClock (parserOf evs))
           = filter (\<lambda>t. entry t \<noteq> ''MaaTaskerPostStop'') (buildTasks noClock evs)" for evs
    by (simp add: getTasks_def parserOf_def)
  show ?thesis
    unfolding g b d by (simp add: attachNodes_more)
qed

section \<open>The event buffer\<close>

text \<open>
  Claim C9. \<^verbatim>\<open>getTasks()\<close> consumes the event buffer: after a call the event list of
  the parser is empty, so \<^verbatim>\<open>getEvents()\<close> returns the empty list, and a second call of
  \<^verbatim>\<open>getTasks()\<close> on the parser that the first call leaves returns the empty list,
  whatever the first call returned.
\<close>

theorem getTasks_consumes_events:
  "getEvents (snd (getTasks getTime p)) = []
   \<and> fst (getTasks getTime (snd (getTasks getTime p))) = []"
  by (simp add: getTasks_def getEvents_def buildTasks_def)

section \<open>Statistics\<close>

lemma hour_rows:
  "map (\<lambda>r. (ns_name r, ns_durations r, ns_successCount r, ns_failCount r, ns_successRate r))
     (analyze hourClock
        [taskOf [nodeAt ''A'' ''00:00:00.000'' Success [attemptAt ''00:00:00.000''],
                 nodeAt ''B'' ''01:00:00.000'' Failed []] (Some ''01:00:00.000'')])
   = [(''A'', [Some 3600000], 1, 0, Some 100), (''B'', [Some 0], 0, 1, Some 0)]"
  by code_simp

lemma hour_phase_rows:
  "map (\<lambda>r. (ra_name r, ra_successCount r, ra_failCount r, ra_successRate r))
     (analyzeRecognitionAction hourClock
        [taskOf [nodeAt ''A'' ''00:00:00.000'' Success [attemptAt ''00:00:00.000''],
                 nodeAt ''B'' ''01:00:00.000'' Failed []] (Some ''01:00:00.000'')])
   = [(''A'', 1, 0, Some 100)]"
  by code_simp

text \<open>
  Claim C7, as amended. Every row that \<^verbatim>\<open>analyze\<close> or \<^verbatim>\<open>analyzeRecognitionAction\<close> emits
  has a positive denominator \<^verbatim>\<open>successCount + failCount\<close>, and no row with denominator 0
  is emitted. Its \<^verbatim>\<open>successRate\<close> is the double that
  \<^verbatim>\<open>(successCount / (successCount + failCount)) * 100\<close> evaluates to, the quotient and
  then the product each rounded to the nearest double. It lies between 0 and 100, it
  differs from the exact value of \<^verbatim>\<open>100 * successCount / (successCount + failCount)\<close> by
  at most \<open>1 / 2 ^ 46\<close>, and it is exactly 0 when \<^verbatim>\<open>successCount\<close> is 0 and exactly 100
  when \<^verbatim>\<open>failCount\<close> is 0.
\<close>

theorem success_rate_defined:
  "(\<forall>r\<in>set (analyze getTime ts).
      0 < ns_successCount r + ns_failCount r
      \<and> ns_successRate r
          = Some (roundDouble (roundDouble (of_nat (ns_successCount r)
                                            / of_nat (ns_successCount r + ns_failCount r)) * 100))
      \<and> (\<exists>x. ns_successRate r = Some x \<and> 0 \<le> x \<and> x \<le> 100
             \<and> \<bar>x - 100 * of_nat (ns_successCount r) / of_nat (ns_successCount r + ns_failCount r)\<bar>
                 \<le> 1 / 2 ^ 46
             \<and> (ns_successCount r = 0 \<longrightarrow> x = 0)
             \<and> (ns_failCount r = 0 \<longrightarrow> x = 100)))
   \<and> (\<forall>r\<in>set (analyzeRecognitionAction getTime ts).
      0 < ra_successCount r + ra_failCount r
      \<and> ra_successRate r
          = Some (roundDouble (roundDouble (of_nat (ra_successCount r)
                                            / of_nat (ra_successCount r + ra_failCount r)) * 100))
      \<and> (\<exists>x. ra_successRate r = Some x \<and> 0 \<le> x \<and> x \<le> 100
             \<and> \<bar>x - 100 * of_nat (ra_successCount r) / of_nat (ra_successCount r + ra_failCount r)\<bar>
                 \<le> 1 / 2 ^ 46
             \<and> (ra_successCount r = 0 \<longrightarrow> x = 0)
             \<and> (ra_failCount r = 0 \<longrightarrow> x = 100)))"
proof (intro conjI ballI)
  fix r
  assume "r \<in> set (analyze getTime ts)"
  then obtain name st where st: "stats_ok st" "st_durations st \<noteq> []" "mkRow (name, st) = [r]"
    by (rule analyze_rows)
  from st(2,3) have f: "st_successCount st = ns_successCount r" "st_failCount st = ns_failCount r"
    "rate (st_successCount st) (st_failCount st) = ns_successRate r"
    by (auto simp: mkRow_def Let_def)
  from st(2) have "0 < length (st_durations st)" by simp
  with st(1) have "0 < st_successCount st + st_failCount st"
    by (simp add: stats_ok_def)
  then have pos: "0 < ns_successCount r + ns_failCount r" by (simp only: f)
  then show "0 < ns_successCount r + ns_failCount r" .
  from pos show "ns_successRate r
          = Some (roundDouble (roundDouble (of_nat (ns_successCount r)
                                            / of_nat (ns_successCount r + ns_failCount r)) * 100))"
    unfolding f(3) [symmetric] f(1,2) by (simp add: rate_def)
  from rate_props [OF pos]
  show "\<exists>x. ns_successRate r = Some x \<and> 0 \<le> x \<and> x \<le> 100
             \<and> \<bar>x - 100 * of_nat (ns_successCount r) / of_nat (ns_successCount r + ns_failCount r)\<bar>
                 \<le> 1 / 2 ^ 46
             \<and> (ns_successCount r = 0 \<longrightarrow> x = 0)
             \<and> (ns_failCount r = 0 \<longrightarrow> x = 100)"
    unfolding f(3) [symmetric] f(1,2) .
next
  fix r
  assume "r \<in> set (analyzeRecognitionAction getTime ts)"
  from phase_rows [OF this] have pos: "0 < ra_successCount r + ra_failCount r"
    and f: "ra_successRate r = rate (ra_successCount r) (ra_failCount r)" by simp_all
  from pos show "0 < ra_successCount r + ra_failCount r" .
  from pos show "ra_successRate r
          = Some (roundDouble (roundDouble (of_nat (ra_successCount r)
                                            / of_nat (ra_successCount r + ra_failCount r)) * 100))"
    unfolding f by (simp add: rate_def)
  from rate_props [OF pos]
  show "\<exists>x. ra_successRate r = Some x \<and> 0 \<le> x \<and> x \<le> 100
             \<and> \<bar>x - 100 * of_nat (ra_successCount r) / of_nat (ra_successCount r + ra_failCount r)\<bar>
                 \<le> 1 / 2 ^ 46
             \<and> (ra_successCount r = 0 \<longrightarrow> x = 0)
             \<and> (ra_failCount r = 0 \<longrightarrow> x = 100)"
    unfolding f .
qed

theorem success_rate_defined_witness:
  "list_all (\<lambda>r. 0 < ns_successCount r + ns_failCount r
       \<and> ns_successRate r
          = Some (roundDouble (roundDouble (of_nat (ns_successCount r)
                                            / of_nat (ns_successCount r + ns_failCount r)) * 100)))
     (analyze hourClock
        [taskOf [nodeAt ''A'' ''00:00:00.000'' Success [attemptAt ''00:00:00.000''],
                 nodeAt ''B'' ''01:00:00.000'' Failed []] (Some ''01:00:00.000'')])
   \<and> list_all (\<lambda>r. 0 < ra_successCount r + ra_failCount r
       \<and> ra_successRate r
          = Some (roundDouble (roundDouble (of_nat (ra_successCount r)
                                            / of_nat (ra_successCount r + ra_failCount r)) * 100)))
     (analyzeRecognitionAction hourClock
        [taskOf [nodeAt ''A'' ''00:00:00.000'' Success [attemptAt ''00:00:00.000''],
                 nodeAt ''B'' ''01:00:00.000'' Failed []] (Some ''01:00:00.000'')])
   \<and> map (\<lambda>r. (ns_name r, ns_durations r, ns_successCount r, ns_failCount r, ns_successRate r))
     (analyze hourClock
        [taskOf [nodeAt ''A'' ''00:00:00.000'' Success [attemptAt ''00:00:00.000''],
                 nodeAt ''B'' ''01:00:00.000'' Failed []] (Some ''01:00:00.000'')])
     = [(''A'', [Some 3600000], 1, 0, Some 100), (''B'', [Some 0], 0, 1, Some 0)]
   \<and> map (\<lambda>r. (ra_name r, ra_successCount r, ra_failCount r, ra_successRate r))
     (analyzeRecognitionAction hourClock
        [taskOf [nodeAt ''A'' ''00:00:00.000'' Success [attemptAt ''00:00:00.000''],
                 nodeAt ''B'' ''01:00:00.000'' Failed []] (Some ''01:00:00.000'')])
     = [(''A'', 1, 0, Some 100)]"
proof -
  have a: "list_all (\<lambda>r. 0 < ns_successCount r + ns_failCount r
       \<and> ns_successRate r
          = Some (roundDouble (roundDouble (of_nat (ns_successCount r)
                                            / of_nat (ns_successCount r + ns_failCount r)) * 100)))
     (analyze hourClock
        [taskOf [nodeAt ''A'' ''00:00:00.000'' Success [attemptAt ''00:00:00.000''],
                 nodeAt ''B'' ''01:00:00.000'' Failed []] (Some ''01:00:00.000'')])"
    unfolding list_all_iff
    using success_rate_defined [of hourClock
        "[taskOf [nodeAt ''A'' ''00:00:00.000'' Success [attemptAt ''00:00:00.000''],
                 nodeAt ''B'' ''01:00:00.000'' Failed []] (Some ''01:00:00.000'')]"]
    by simp
  have b: "list_all (\<lambda>r. 0 < ra_successCount r + ra_failCount r
       \<and> ra_successRate r
          = Some (roundDouble (roundDouble (of_nat (ra_successCount r)
                                            / of_nat (ra_successCount r + ra_failCount r)) * 100)))
     (analyzeRecognitionAction hourClock
        [taskOf [nodeAt ''A'' ''00:00:00.000'' Success [attemptAt ''00:00:00.000''],
                 nodeAt ''B'' ''01:00:00.000'' Failed []] (Some ''01:00:00.000'')])"
    unfolding list_all_iff
    using success_rate_defined [of hourClock
        "[taskOf [nodeAt ''A'' ''00:00:00.000'' Success [attemptAt ''00:00:00.000''],
                 nodeAt ''B'' ''01:00:00.000'' Failed []] (Some ''01:00:00.000'')]"]
    by simp
  from a b hour_rows hour_phase_rows show ?thesis by (intro conjI)
qed

text \<open>The claim as it was stated, with the rate equal to
  \<^verbatim>\<open>100 * successCount / (successCount + failCount)\<close>, fails for one success and two
  failures: both passes give the double \<open>4691249611844266 / 2 ^ 47\<close>
  (33.33333333333333), which is neither the exact value \<open>100 / 3\<close> nor the double
  \<open>4691249611844267 / 2 ^ 47\<close> (33.333333333333336) nearest to it, to which the
  expression \<^verbatim>\<open>100 * 1 / (1 + 2)\<close> evaluates.\<close>

theorem rounded_rate_counterexample:
  "map (\<lambda>r. (ns_name r, ns_successCount r, ns_failCount r, ns_successRate r))
     (analyze hourClock
        [taskOf [nodeAt ''A'' ''00:00:00.000'' Success [attemptAt ''00:00:00.000''],
                 nodeAt ''A'' ''00:00:00.000'' Failed [attemptAt ''00:00:00.000''],
                 nodeAt ''A'' ''00:00:00.000'' Failed [attemptAt ''00:00:00.000'']]
           (Some ''00:00:00.000'')])
     = [(''A'', 1, 2, Some (4691249611844266 / 2 ^ 47))]
   \<and> map (\<lambda>r. (ra_name r, ra_successCount r, ra_failCount r, ra_successRate r))
     (analyzeRecognitionAction hourClock
        [taskOf [nodeAt ''A'' ''00:00:00.000'' Success [attemptAt ''00:00:00.000''],
                 nodeAt ''A'' ''00:00:00.000'' Failed [attemptAt ''00:00:00.000''],
                 nodeAt ''A'' ''00:00:00.000'' Failed [attemptAt ''00:00:00.000'']]
           (Some ''00:00:00.000'')])
     = [(''A'', 1, 2, Some (4691249611844266 / 2 ^ 47))]
   \<and> (4691249611844266 / 2 ^ 47 :: rat) \<noteq> 100 * of_nat 1 / of_nat (1 + 2)
   \<and> roundDouble (100 * of_nat 1 / of_nat (1 + 2)) = 4691249611844267 / 2 ^ 47"
  by code_simp






end
